theory Spec2Isabelle
  imports Complex_Main
begin

section \<open>Errors\<close>

text \<open>
  The exceptions that can leave the functions of \<^verbatim>\<open>app.py\<close>:
  \<^item> \<open>IndexError\<close>: \<^verbatim>\<open>potential[0]\<close> on an array of size 0 (line 37);
  \<^item> \<open>ValueError\<close>: raised by line 63 with the message
    \<^verbatim>\<open>CSV missing required columns\<close>, and by the numeric library routines the source
    calls (the smoothing filter on an input shorter than its window, \<^verbatim>\<open>argmax\<close> and
    \<^verbatim>\<open>argmin\<close> of an empty sequence).
  A function that can raise returns \<open>py_error + 'a\<close>, with \<open>Inl\<close> for the exception.
\<close>

datatype py_error = IndexError | ValueError string

section \<open>The cycle segmenter (lines 34--51)\<close>

text \<open>
  The values of a column and the tolerance are the real numbers that the machine numbers
  denote. The default of the parameter \<^verbatim>\<open>tol\<close> is the double that the literal
  \<^verbatim>\<open>1e-3\<close> denotes, \<^verbatim>\<open>0x1.0624dd2f1a9fcp-10\<close>; the minimum distance \<^verbatim>\<open>10\<close> is
  a literal of line 43.
\<close>

definition default_tol :: real where
  "default_tol = 1152921504606847 / 1152921504606846976"

text \<open>
  Line 43 evaluates \<^verbatim>\<open>abs(potential[i] - v0) < tol\<close> in the arithmetic of the array:
  rounding in \<^verbatim>\<open>float64\<close>, wrapping in \<^verbatim>\<open>int64\<close> when the column holds integers only.
  The outcome is not the comparison of the real numbers in general, so the model does
  not compute it: the segmenter takes the test as its first argument, \<open>near v0 x tol\<close>
  being what the machine answers for \<^verbatim>\<open>abs(x - v0) < tol\<close> on that array. Nothing is
  assumed about it.
\<close>

type_synonym near_test = "real \<Rightarrow> real \<Rightarrow> real \<Rightarrow> bool"

text \<open>
  The loop \<^verbatim>\<open>for i in range(1, len(potential))\<close> with its two variables
  \<^verbatim>\<open>start_idx\<close> and \<^verbatim>\<open>segments\<close>. The indices still to visit are the list argument.
  Both \<^verbatim>\<open>i\<close> and \<^verbatim>\<open>start_idx\<close> are natural numbers; \<^verbatim>\<open>i - start_idx > 10\<close> has the
  same truth value with truncating subtraction as with Python's integers.
\<close>

fun scan_cycles ::
  "near_test \<Rightarrow> real list \<Rightarrow> real \<Rightarrow> real \<Rightarrow> nat list \<Rightarrow> nat \<times> (nat \<times> nat) list
     \<Rightarrow> nat \<times> (nat \<times> nat) list"
where
  "scan_cycles near potential v0 tol [] st = st"
| "scan_cycles near potential v0 tol (i # rest) (start_idx, segments) =
     (if near v0 (potential ! i) tol \<and> i - start_idx > 10
      then scan_cycles near potential v0 tol rest (i, segments @ [(start_idx, i)])
      else scan_cycles near potential v0 tol rest (start_idx, segments))"

definition split_cycles_by_return_to_start ::
  "near_test \<Rightarrow> real list \<Rightarrow> real \<Rightarrow> py_error + (nat \<times> nat) list"
where
  "split_cycles_by_return_to_start near potential tol =
     (case potential of
        [] \<Rightarrow> Inl IndexError
      | v0 # _ \<Rightarrow>
          (case scan_cycles near potential v0 tol [1..<length potential] (0, []) of
             (start_idx, segments) \<Rightarrow>
               Inr (if start_idx < length potential
                    then segments @ [(start_idx, length potential)]
                    else segments)))"

text \<open>
  A list of half-open ranges is a chain from \<open>a\<close> to \<open>b\<close> when the first range starts
  at \<open>a\<close>, every range is non-empty and ends where the next one starts, and the last
  one ends at \<open>b\<close>.
\<close>

fun chain :: "nat \<Rightarrow> (nat \<times> nat) list \<Rightarrow> nat \<Rightarrow> bool" where
  "chain a [] b = (a = b)"
| "chain a ((s, e) # rest) b = (s = a \<and> s < e \<and> chain e rest b)"


text \<open>
  The comparison carried out on the real numbers. On a column of integers of small
  magnitude, \<^verbatim>\<open>int64\<close> or \<^verbatim>\<open>float64\<close>, the difference and its absolute value are
  exact, and this is the machine's answer; the examples use it on such columns only.
\<close>

definition exact_near :: near_test where
  "exact_near v0 x tol \<longleftrightarrow> \<bar>x - v0\<bar> < tol"

text \<open>A potential that returns to its start every eleven points, used in examples.\<close>

definition run23 :: "real list" where
  "run23 = [0, 1, 2, 3, 4, 5, 6, 7, 8, 9, 10, 0, 1, 2, 3, 4, 5, 6, 7, 8, 9, 10, 0]"

section \<open>The loader (lines 10--32)\<close>

text \<open>
  What \<^verbatim>\<open>pd.read_csv\<close> hands back is either the exception \<^verbatim>\<open>EmptyDataError\<close> (the
  parser found no columns) or a data frame: the names of its columns and its rows. All
  columns of a frame have the same length, so the frame is kept row by row; the cells of
  a row under a name that is not among \<open>columns\<close> are never read. Following the
  interface description, \<^verbatim>\<open>x\<close> and \<^verbatim>\<open>y\<close> are numeric and the unit columns hold text,
  with \<open>None\<close> for a missing cell.
\<close>

record row =
  val_x :: real
  val_y :: real
  val_x_unit :: "string option"
  val_y_unit :: "string option"

record dataframe =
  columns :: "string list"
  rows :: "row list"

datatype csv_parse = EmptyDataError | Parsed dataframe

text \<open>
  An uploaded file is a stream with a name. \<open>parsed\<close> is what the parser makes of its
  content, and \<open>x_near\<close> is the test of line 43 in the arithmetic of the array that the
  column \<^verbatim>\<open>x\<close> of that content becomes.

  \<^verbatim>\<open>pd.read_csv\<close> reads a stream from its position to its end and leaves it there, and
  the source never rewinds a stream. A stream that has been read has nothing left, and
  the parser raises \<^verbatim>\<open>EmptyDataError\<close> on it. \<^verbatim>\<open>plot_multi_cv\<close> hands \<^verbatim>\<open>files[0]\<close> to
  the loader once more in line 131, after the loop may have read it already; the flag
  of \<open>read_csv\<close> tells whether the stream has been read before.
\<close>

record upload =
  name :: string
  parsed :: csv_parse
  x_near :: near_test

definition read_csv :: "bool \<Rightarrow> upload \<Rightarrow> csv_parse" where
  "read_csv again csv_file = (if again then EmptyDataError else parsed csv_file)"

text \<open>\<^verbatim>\<open>df.get(col, None)\<close> for the two numeric columns.\<close>

definition df_get :: "string \<Rightarrow> (row \<Rightarrow> real) \<Rightarrow> dataframe \<Rightarrow> real list option" where
  "df_get col cell df =
     (if col \<in> set (columns df) then Some (map cell (rows df)) else None)"

text \<open>
  Lines 23--26 and 27--30: the first cell of a unit column that is not missing, when the
  column exists and has one; the default otherwise.
\<close>

definition first_unit ::
  "string \<Rightarrow> (row \<Rightarrow> string option) \<Rightarrow> dataframe \<Rightarrow> string \<Rightarrow> string"
where
  "first_unit col cell df dflt =
     (if col \<in> set (columns df)
      then (case List.map_filter cell (rows df) of [] \<Rightarrow> dflt | u # _ \<Rightarrow> u)
      else dflt)"

text \<open>
  The loader has a value and an effect: line 14 writes a warning that names the file to
  the page. \<open>read_cv_data\<close> is the value, \<open>read_cv_warnings\<close> the messages written by
  the same call.
\<close>

datatype notice = Empty_or_invalid string

definition read_cv_warnings :: "bool \<Rightarrow> upload \<Rightarrow> notice list" where
  "read_cv_warnings again csv_file =
     (case read_csv again csv_file of
        EmptyDataError \<Rightarrow> [Empty_or_invalid (name csv_file)]
      | Parsed df \<Rightarrow> [])"

definition read_cv_data ::
  "bool \<Rightarrow> upload \<Rightarrow> real list option \<times> real list option \<times> string \<times> string"
where
  "read_cv_data again csv_file =
     (case read_csv again csv_file of
        EmptyDataError \<Rightarrow> (None, None, ''V'', ''A'')
      | Parsed df \<Rightarrow>
          (df_get ''x'' val_x df, df_get ''y'' val_y df,
           first_unit ''x_unit'' val_x_unit df ''V'',
           first_unit ''y_unit'' val_y_unit df ''A''))"

section \<open>Choosing cycles (lines 53--57)\<close>

text \<open>Decimal digits of a natural number, as an f-string prints them.\<close>

fun string_of_nat :: "nat \<Rightarrow> string" where
  "string_of_nat n =
     (if n < 10 then [''0123456789'' ! n]
      else string_of_nat (n div 10) @ [''0123456789'' ! (n mod 10)])"

declare string_of_nat.simps [simp del]

text \<open>
  \<^verbatim>\<open>st.multiselect\<close> is the user: given the widget and its options it answers with the
  options that are ticked. The two call sites differ in the widget's caption, which the
  model abbreviates to a tag.
\<close>

datatype widget = SingleCycles | FileCycles string

type_synonym multiselect = "widget \<Rightarrow> string list \<Rightarrow> string list"

definition select_cycles :: "multiselect \<Rightarrow> (nat \<times> nat) list \<Rightarrow> widget \<Rightarrow> nat list" where
  "select_cycles ui segments label =
     (let cycle_labels = map (\<lambda>i. ''Cycle '' @ string_of_nat (i + 1)) [0..<length segments];
          selected = ui label cycle_labels
      in map fst (filter (\<lambda>(i, c). c \<in> set selected) (List.enumerate 0 cycle_labels)))"

section \<open>Library routines\<close>

text \<open>
  Modelled from the spec: \<^verbatim>\<open>scipy.signal.savgol_filter\<close>, whose code is not part of the
  repository. The filter fails when the input is shorter than the window and otherwise
  returns one fitted value for each input position. The fitted values are floating-point
  results of a least-squares fit; they enter as the parameter \<open>fit\<close>, which gives the
  value at a position of an input.
\<close>

type_synonym fitter = "real list \<Rightarrow> nat \<Rightarrow> real"

definition savgol_error :: py_error where
  "savgol_error = ValueError ''window_length must be less than or equal to the size of x''"

definition savgol_filter :: "fitter \<Rightarrow> real list \<Rightarrow> nat \<Rightarrow> nat \<Rightarrow> py_error + real list" where
  "savgol_filter fit values window_length polyorder =
     (if length values < window_length then Inl savgol_error
      else Inr (map (fit values) [0..<length values]))"

text \<open>
  Modelled from the spec: \<^verbatim>\<open>np.argmax\<close> and \<^verbatim>\<open>np.argmin\<close>, numpy routines whose code is
  not part of the repository. They give the position of the maximum and of the minimum
  of the sequence, the first one where the value occurs more than once. The model scans
  from the left and keeps the position of the best value seen so far, replacing it only
  by a strictly better one; on an empty sequence the routines raise.
\<close>

fun argmax_scan :: "real \<Rightarrow> nat \<Rightarrow> nat \<Rightarrow> real list \<Rightarrow> nat" where
  "argmax_scan best pos i [] = pos"
| "argmax_scan best pos i (v # vs) =
     (if best < v then argmax_scan v i (Suc i) vs else argmax_scan best pos (Suc i) vs)"

fun argmin_scan :: "real \<Rightarrow> nat \<Rightarrow> nat \<Rightarrow> real list \<Rightarrow> nat" where
  "argmin_scan best pos i [] = pos"
| "argmin_scan best pos i (v # vs) =
     (if v < best then argmin_scan v i (Suc i) vs else argmin_scan best pos (Suc i) vs)"

definition np_argmax :: "real list \<Rightarrow> py_error + nat" where
  "np_argmax a =
     (case a of
        [] \<Rightarrow> Inl (ValueError ''attempt to get argmax of an empty sequence'')
      | v # vs \<Rightarrow> Inr (argmax_scan v 0 1 vs))"

definition np_argmin :: "real list \<Rightarrow> py_error + nat" where
  "np_argmin a =
     (case a of
        [] \<Rightarrow> Inl (ValueError ''attempt to get argmin of an empty sequence'')
      | v # vs \<Rightarrow> Inr (argmin_scan v 0 1 vs))"

text \<open>
  The colour map \<^verbatim>\<open>tab10\<close>: ten colours, \<^verbatim>\<open>colors(k)\<close> being the entry \<open>k\<close>. The source
  calls it with a residue modulo \<^verbatim>\<open>colors.N\<close> only.
\<close>

datatype color = Tab10 nat | Named string

definition colors_N :: nat where
  "colors_N = 10"

definition colors :: "nat \<Rightarrow> color" where
  "colors k = Tab10 k"

text \<open>\<^verbatim>\<open>os.path.basename\<close> and \<^verbatim>\<open>str.replace('.csv', '')\<close>.\<close>

definition basename :: "string \<Rightarrow> string" where
  "basename p = rev (takeWhile (\<lambda>c. c \<noteq> CHR ''/'') (rev p))"

fun remove_csv :: "string \<Rightarrow> string" where
  "remove_csv [] = []"
| "remove_csv (c # cs) =
     (if take 4 (c # cs) = ''.csv'' then remove_csv (drop 3 cs) else c # remove_csv cs)"

section \<open>The figure\<close>

text \<open>
  A figure is what the calls on \<^verbatim>\<open>ax\<close> leave behind: the plotted series in the order of
  the \<^verbatim>\<open>ax.plot\<close> calls, and the two axis labels. A series is its data, its legend
  label and either a line colour or a marker format (\<^verbatim>\<open>'ro'\<close>, \<^verbatim>\<open>'bo'\<close>). Line width,
  transparency, legend and grid are the same constants on every path and are left out.
\<close>

datatype style = Line color | Marker string

record series =
  s_x :: "real list"
  s_y :: "real list"
  s_label :: string
  s_style :: style

record figure =
  lines :: "series list"
  xlabel :: string
  ylabel :: string

text \<open>\<^verbatim>\<open>seq[start:end]\<close> for \<open>start \<le> end\<close>.\<close>

definition slice :: "'a list \<Rightarrow> nat \<Rightarrow> nat \<Rightarrow> 'a list" where
  "slice xs start end = take (end - start) (drop start xs)"

text \<open>
  The block that the source writes four times (lines 74--78, 80--84, 117--121 and
  124--128): plot the raw curve and, when smoothing is on, filter both coordinates with
  window 11 and order 3 and plot the result. An exception of the filter leaves the block.
\<close>

definition plot_curve ::
  "fitter \<Rightarrow> bool \<Rightarrow> real list \<Rightarrow> real list \<Rightarrow> string \<Rightarrow> color \<Rightarrow> string \<Rightarrow> color
     \<Rightarrow> py_error + series list"
where
  "plot_curve fit smooth xs ys raw_label raw_color smooth_label smooth_color =
     (let raw = \<lparr>s_x = xs, s_y = ys, s_label = raw_label, s_style = Line raw_color\<rparr> in
      if smooth then
        (case savgol_filter fit xs 11 3 of
           Inl e \<Rightarrow> Inl e
         | Inr x_smooth \<Rightarrow>
             (case savgol_filter fit ys 11 3 of
                Inl e \<Rightarrow> Inl e
              | Inr y_smooth \<Rightarrow>
                  Inr [raw, \<lparr>s_x = x_smooth, s_y = y_smooth, s_label = smooth_label,
                             s_style = Line smooth_color\<rparr>]))
      else Inr [raw])"

text \<open>
  The loop over the chosen cycles (lines 71--78 and 114--121). \<open>base\<close> is the text in
  front of \<^verbatim>\<open>cycle\<close> in the legend, \<open>cidx\<close> the colour index of a cycle:
  \<^verbatim>\<open>i % colors.N\<close> in single-file mode, \<^verbatim>\<open>(i + j) % colors.N\<close> in overlay mode.
\<close>

fun plot_cycles ::
  "fitter \<Rightarrow> bool \<Rightarrow> string \<Rightarrow> (nat \<Rightarrow> nat) \<Rightarrow> real list \<Rightarrow> real list \<Rightarrow> (nat \<times> nat) list
     \<Rightarrow> nat list \<Rightarrow> py_error + series list"
where
  "plot_cycles fit smooth base cidx potential current segments [] = Inr []"
| "plot_cycles fit smooth base cidx potential current segments (j # rest) =
     (case segments ! j of
        (start, end) \<Rightarrow>
          (case plot_curve fit smooth (slice potential start end) (slice current start end)
                  (base @ '' cycle '' @ string_of_nat (j + 1)) (colors (cidx j))
                  (base @ '' cycle '' @ string_of_nat (j + 1) @ '' smoothed'') (colors (cidx j))
           of
             Inl e \<Rightarrow> Inl e
           | Inr ls \<Rightarrow>
               (case plot_cycles fit smooth base cidx potential current segments rest of
                  Inl e \<Rightarrow> Inl e
                | Inr others \<Rightarrow> Inr (ls @ others))))"

section \<open>Single-file mode (lines 60--96)\<close>

text \<open>Lines 86--90: the two peak markers.\<close>

definition mark_peak_lines :: "real list \<Rightarrow> real list \<Rightarrow> py_error + series list" where
  "mark_peak_lines potential current =
     (case np_argmax current of
        Inl e \<Rightarrow> Inl e
      | Inr ox_idx \<Rightarrow>
          (case np_argmin current of
             Inl e \<Rightarrow> Inl e
           | Inr red_idx \<Rightarrow>
               Inr [\<lparr>s_x = [potential ! ox_idx], s_y = [current ! ox_idx],
                      s_label = ''Ox peak'', s_style = Marker ''ro''\<rparr>,
                    \<lparr>s_x = [potential ! red_idx], s_y = [current ! red_idx],
                      s_label = ''Red peak'', s_style = Marker ''bo''\<rparr>]))"

text \<open>\<^verbatim>\<open>label or os.path.basename(csv_file.name)\<close>: an absent or empty label is falsy.\<close>

definition label_or :: "string option \<Rightarrow> string \<Rightarrow> string" where
  "label_or label other =
     (case label of None \<Rightarrow> other | Some l \<Rightarrow> if l = [] then other else l)"

definition plot_single_cv ::
  "multiselect \<Rightarrow> fitter \<Rightarrow> upload \<Rightarrow> string option \<Rightarrow> bool \<Rightarrow> bool \<Rightarrow> bool
     \<Rightarrow> py_error + figure"
where
  "plot_single_cv ui fit csv_file label smooth mark_peaks auto_split =
     (case read_cv_data False csv_file of
        (Some potential, Some current, x_unit, y_unit) \<Rightarrow>
          (let base = label_or label (basename (name csv_file)) in
           case (if auto_split then
                   (case split_cycles_by_return_to_start (x_near csv_file) potential
                           default_tol of
                      Inl e \<Rightarrow> Inl e
                    | Inr segments \<Rightarrow>
                        plot_cycles fit smooth base (\<lambda>i. i mod colors_N) potential current
                          segments (select_cycles ui segments SingleCycles))
                 else
                   plot_curve fit smooth potential current
                     (base @ '' (raw)'') (Named ''blue'')
                     (base @ '' (smoothed)'') (Named ''red''))
           of
             Inl e \<Rightarrow> Inl e
           | Inr ls \<Rightarrow>
               (case (if mark_peaks \<and> \<not> auto_split
                      then mark_peak_lines potential current else Inr [])
                of
                  Inl e \<Rightarrow> Inl e
                | Inr peaks \<Rightarrow>
                    Inr \<lparr>lines = ls @ peaks,
                         xlabel = ''Potential ('' @ x_unit @ '')'',
                         ylabel = ''Current ('' @ y_unit @ '')''\<rparr>))
      | _ \<Rightarrow> Inl (ValueError ''CSV missing required columns''))"

text \<open>The messages on the page after the call: line 61 is its only read.\<close>

definition plot_single_cv_warnings :: "upload \<Rightarrow> notice list" where
  "plot_single_cv_warnings csv_file = read_cv_warnings False csv_file"

section \<open>Overlay mode (lines 99--141)\<close>

text \<open>
  Line 104: a file is passed over when the list of selected names is neither absent nor
  empty and does not hold its name.
\<close>

definition deselected :: "string list option \<Rightarrow> upload \<Rightarrow> bool" where
  "deselected selected_files f =
     (case selected_files of
        None \<Rightarrow> False
      | Some names \<Rightarrow> names \<noteq> [] \<and> name f \<notin> set names)"

text \<open>Lines 111--128: what one loaded file adds to the figure.\<close>

definition overlay_lines ::
  "multiselect \<Rightarrow> fitter \<Rightarrow> bool \<Rightarrow> bool \<Rightarrow> nat \<Rightarrow> upload \<Rightarrow> real list \<Rightarrow> real list
     \<Rightarrow> py_error + series list"
where
  "overlay_lines ui fit smooth auto_split i f potential current =
     (if auto_split then
        (case split_cycles_by_return_to_start (x_near f) potential default_tol of
           Inl e \<Rightarrow> Inl e
         | Inr segments \<Rightarrow>
             plot_cycles fit smooth (name f) (\<lambda>j. (i + j) mod colors_N) potential current
               segments (select_cycles ui segments (FileCycles (name f))))
      else
        plot_curve fit smooth potential current
          (remove_csv (name f) @ '' (raw)'') (colors (i mod colors_N))
          (remove_csv (name f) @ '' (smoothed)'') (colors (i mod colors_N)))"

text \<open>The loop of lines 103--128 over \<^verbatim>\<open>enumerate(files)\<close>.\<close>

fun overlay_files ::
  "multiselect \<Rightarrow> fitter \<Rightarrow> bool \<Rightarrow> string list option \<Rightarrow> bool \<Rightarrow> (nat \<times> upload) list
     \<Rightarrow> py_error + series list"
where
  "overlay_files ui fit smooth selected_files auto_split [] = Inr []"
| "overlay_files ui fit smooth selected_files auto_split ((i, f) # rest) =
     (if deselected selected_files f
      then overlay_files ui fit smooth selected_files auto_split rest
      else
        (case read_cv_data False f of
           (Some potential, Some current, x_unit, y_unit) \<Rightarrow>
             (case overlay_lines ui fit smooth auto_split i f potential current of
                Inl e \<Rightarrow> Inl e
              | Inr ls \<Rightarrow>
                  (case overlay_files ui fit smooth selected_files auto_split rest of
                     Inl e \<Rightarrow> Inl e
                   | Inr others \<Rightarrow> Inr (ls @ others)))
         | _ \<Rightarrow> overlay_files ui fit smooth selected_files auto_split rest))"

text \<open>
  The messages that the loop writes: those of the reads of line 107, up to the file at
  which an exception leaves the loop.
\<close>

fun overlay_warnings ::
  "multiselect \<Rightarrow> fitter \<Rightarrow> bool \<Rightarrow> string list option \<Rightarrow> bool \<Rightarrow> (nat \<times> upload) list
     \<Rightarrow> notice list"
where
  "overlay_warnings ui fit smooth selected_files auto_split [] = []"
| "overlay_warnings ui fit smooth selected_files auto_split ((i, f) # rest) =
     (if deselected selected_files f
      then overlay_warnings ui fit smooth selected_files auto_split rest
      else
        read_cv_warnings False f @
        (case read_cv_data False f of
           (Some potential, Some current, x_unit, y_unit) \<Rightarrow>
             (case overlay_lines ui fit smooth auto_split i f potential current of
                Inl e \<Rightarrow> []
              | Inr ls \<Rightarrow> overlay_warnings ui fit smooth selected_files auto_split rest)
         | _ \<Rightarrow> overlay_warnings ui fit smooth selected_files auto_split rest))"

text \<open>
  Lines 130--135: the units of the axes. \<^verbatim>\<open>files[0]\<close> is read here; it has been read
  before exactly when the loop did not pass over it.
\<close>

definition axis_units :: "string list option \<Rightarrow> upload list \<Rightarrow> string \<times> string" where
  "axis_units selected_files files =
     (case files of
        [] \<Rightarrow> (''V'', ''A'')
      | f0 # _ \<Rightarrow>
          (case read_cv_data (\<not> deselected selected_files f0) f0 of
             (first_p, first_c, x_unit, y_unit) \<Rightarrow>
               if first_p = None \<or> first_c = None then (''V'', ''A'') else (x_unit, y_unit)))"

definition plot_multi_cv ::
  "multiselect \<Rightarrow> fitter \<Rightarrow> upload list \<Rightarrow> bool \<Rightarrow> string list option \<Rightarrow> bool
     \<Rightarrow> py_error + figure"
where
  "plot_multi_cv ui fit files smooth selected_files auto_split =
     (case overlay_files ui fit smooth selected_files auto_split (List.enumerate 0 files) of
        Inl e \<Rightarrow> Inl e
      | Inr ls \<Rightarrow>
          (case axis_units selected_files files of
             (x_unit, y_unit) \<Rightarrow>
               Inr \<lparr>lines = ls,
                    xlabel = ''Potential ('' @ x_unit @ '')'',
                    ylabel = ''Current ('' @ y_unit @ '')''\<rparr>))"

text \<open>
  The messages on the page after the call: those of the loop and, when the loop has
  ended without an exception, that of the read of line 131.
\<close>

definition plot_multi_cv_warnings ::
  "multiselect \<Rightarrow> fitter \<Rightarrow> upload list \<Rightarrow> bool \<Rightarrow> string list option \<Rightarrow> bool
     \<Rightarrow> notice list"
where
  "plot_multi_cv_warnings ui fit files smooth selected_files auto_split =
     overlay_warnings ui fit smooth selected_files auto_split (List.enumerate 0 files) @
     (case overlay_files ui fit smooth selected_files auto_split (List.enumerate 0 files) of
        Inl e \<Rightarrow> []
      | Inr ls \<Rightarrow>
          (case files of
             [] \<Rightarrow> []
           | f0 # _ \<Rightarrow> read_cv_warnings (\<not> deselected selected_files f0) f0))"

section \<open>Example inputs\<close>

text \<open>
  A user who leaves every cycle ticked, and a stand-in for the fitted values. The
  example files hold integers of small magnitude.
\<close>

definition all_ticked :: multiselect where
  "all_ticked w options = options"

definition flat_fit :: fitter where
  "flat_fit values k = values ! k"

definition point :: "real \<Rightarrow> real \<Rightarrow> row" where
  "point a b = \<lparr>val_x = a, val_y = b, val_x_unit = None, val_y_unit = None\<rparr>"

definition file_a :: upload where
  "file_a = \<lparr>name = ''a.csv'',
     parsed = Parsed \<lparr>columns = [''x'', ''y'', ''x_unit'', ''y_unit''],
       rows = [\<lparr>val_x = 0, val_y = 1, val_x_unit = Some ''mV'', val_y_unit = Some ''mA''\<rparr>,
               point 1 2]\<rparr>,
     x_near = exact_near\<rparr>"

definition file_b :: upload where
  "file_b = \<lparr>name = ''b.csv'',
     parsed = Parsed \<lparr>columns = [''x'', ''y''], rows = [point 0 3, point 1 (- 1)]\<rparr>,
     x_near = exact_near\<rparr>"

definition file_run :: upload where
  "file_run = \<lparr>name = ''run.csv'',
     parsed = Parsed \<lparr>columns = [''x'', ''y''], rows = map (\<lambda>v. point v 0) run23\<rparr>,
     x_near = exact_near\<rparr>"

definition file_no_y :: upload where
  "file_no_y = \<lparr>name = ''c.csv'',
     parsed = Parsed \<lparr>columns = [''x''], rows = [point 0 0]\<rparr>,
     x_near = exact_near\<rparr>"

definition file_empty :: upload where
  "file_empty = \<lparr>name = ''d.csv'', parsed = EmptyDataError, x_near = exact_near\<rparr>"

definition file_header_only :: upload where
  "file_header_only = \<lparr>name = ''e.csv'',
     parsed = Parsed \<lparr>columns = [''x'', ''y''], rows = []\<rparr>,
     x_near = exact_near\<rparr>"

section \<open>Properties of the segmenter\<close>

lemma chain_snoc:
  "chain a segs m \<Longrightarrow> m < e \<Longrightarrow> chain a (segs @ [(m, e)]) e"
  by (induction a segs m rule: chain.induct) auto

lemma chain_le: "chain a segs b \<Longrightarrow> a \<le> b"
  by (induction a segs b rule: chain.induct) auto

lemma scan_cycles_chain:
  "chain a segs start \<Longrightarrow>
   scan_cycles near p v0 tol idxs (start, segs) = (start', segs') \<Longrightarrow>
   chain a segs' start' \<and> (start' = start \<or> start' \<in> set idxs)"
proof (induction idxs arbitrary: start segs)
  case Nil
  then show ?case by simp
next
  case (Cons i rest)
  show ?case
  proof (cases "near v0 (p ! i) tol \<and> i - start > 10")
    case True
    then have lt: "start < i" by arith
    have c: "chain a (segs @ [(start, i)]) i"
      using Cons.prems(1) lt by (rule chain_snoc)
    have r: "scan_cycles near p v0 tol rest (i, segs @ [(start, i)]) = (start', segs')"
      using Cons.prems(2) True by simp
    from Cons.IH [OF c r] show ?thesis by auto
  next
    case False
    then have r: "scan_cycles near p v0 tol rest (start, segs) = (start', segs')"
      using Cons.prems(2) by auto
    from Cons.IH [OF Cons.prems(1) r] show ?thesis by auto
  qed
qed

lemma split_cycles_chain:
  assumes "potential \<noteq> []"
  shows "\<exists>segs. split_cycles_by_return_to_start near potential tol = Inr segs
           \<and> chain 0 segs (length potential)"
proof -
  obtain v0 tl where p: "potential = v0 # tl"
    using assms by (cases potential) auto
  obtain start' segs' where
    sc: "scan_cycles near potential v0 tol [1..<length potential] (0, []) = (start', segs')"
    by (cases "scan_cycles near potential v0 tol [1..<length potential] (0, [])") auto
  have "chain 0 [] 0" by simp
  from scan_cycles_chain [OF this sc]
  have c: "chain 0 segs' start'" and s: "start' = 0 \<or> start' \<in> set [1..<length potential]"
    by auto
  from s p have lt: "start' < length potential" by auto
  have "chain 0 (segs' @ [(start', length potential)]) (length potential)"
    using c lt by (rule chain_snoc)
  moreover have "split_cycles_by_return_to_start near potential tol
      = Inr (segs' @ [(start', length potential)])"
    using sc lt by (simp add: split_cycles_by_return_to_start_def p)
  ultimately show ?thesis by simp
qed

subsection \<open>What a chain of ranges gives\<close>

lemma chain_bounds:
  "chain a segs b \<Longrightarrow> (s, e) \<in> set segs \<Longrightarrow> a \<le> s \<and> s < e \<and> e \<le> b"
proof (induction a segs b rule: chain.induct)
  case (1 a b)
  then show ?case by simp
next
  case (2 a s' e' rest b)
  from "2.prems"(1) have hd: "s' = a" "s' < e'" and tl: "chain e' rest b" by auto
  from "2.prems"(2) consider "(s, e) = (s', e')" | "(s, e) \<in> set rest" by auto
  then show ?case
  proof cases
    case 1
    with hd chain_le [OF tl] show ?thesis by auto
  next
    case 2
    from "2.IH" [OF tl 2] hd show ?thesis by auto
  qed
qed

lemma chain_no_hit_before:
  "chain a segs b \<Longrightarrow> i < a \<Longrightarrow> filter (\<lambda>(s, e). s \<le> i \<and> i < e) segs = []"
  by (auto simp: filter_empty_conv dest: chain_bounds)

lemma chain_covers_once:
  "chain a segs b \<Longrightarrow> a \<le> i \<Longrightarrow> i < b \<Longrightarrow>
   length (filter (\<lambda>(s, e). s \<le> i \<and> i < e) segs) = 1"
proof (induction a segs b rule: chain.induct)
  case (1 a b)
  then show ?case by simp
next
  case (2 a s e rest b)
  from "2.prems"(1) have hd: "s = a" "s < e" and tl: "chain e rest b" by auto
  show ?case
  proof (cases "i < e")
    case True
    with chain_no_hit_before [OF tl True] hd "2.prems"(2) show ?thesis by simp
  next
    case False
    then have "e \<le> i" by simp
    from "2.IH" [OF tl this "2.prems"(3)] False show ?thesis by simp
  qed
qed

lemma chain_contiguous:
  "chain a segs b \<Longrightarrow> Suc k < length segs \<Longrightarrow> snd (segs ! k) = fst (segs ! Suc k)"
proof (induction a segs b arbitrary: k rule: chain.induct)
  case (1 a b)
  then show ?case by simp
next
  case (2 a s e rest b)
  from "2.prems"(1) have tl: "chain e rest b" by simp
  show ?case
  proof (cases k)
    case 0
    with "2.prems"(2) tl show ?thesis by (cases rest) auto
  next
    case (Suc j)
    with "2.prems"(2) "2.IH" [OF tl, of j] show ?thesis by simp
  qed
qed

lemma chain_starts_increase:
  "chain a segs b \<Longrightarrow> sorted_wrt (<) (map fst segs)"
proof (induction a segs b rule: chain.induct)
  case (1 a b)
  then show ?case by simp
next
  case (2 a s e rest b)
  from "2.prems" have hd: "s < e" and tl: "chain e rest b" by auto
  have "s < fst x" if "x \<in> set rest" for x
    using chain_bounds [OF tl, of "fst x" "snd x"] that hd by simp
  with "2.IH" [OF tl] show ?case by auto
qed

lemma chain_disjoint:
  "chain a segs b \<Longrightarrow> sorted_wrt (\<lambda>r r'. snd r \<le> fst r') segs"
proof (induction a segs b rule: chain.induct)
  case (1 a b)
  then show ?case by simp
next
  case (2 a s e rest b)
  from "2.prems" have tl: "chain e rest b" by auto
  have "e \<le> fst x" if "x \<in> set rest" for x
    using chain_bounds [OF tl, of "fst x" "snd x"] that by simp
  with "2.IH" [OF tl] show ?case by auto
qed

lemma chain_ends:
  "chain a segs b \<Longrightarrow> segs \<noteq> [] \<Longrightarrow> fst (hd segs) = a \<and> snd (last segs) = b"
  by (induction a segs b rule: chain.induct) auto

text \<open>
  On a sequence with at least one point the call returns, whatever the test answers, and
  its segments partition the index range. Every index below the length lies in exactly
  one segment, no segment reaches beyond the length, each segment ends where the next
  one starts, the segments do not overlap, and the starts increase strictly from \<open>0\<close>.
\<close>

theorem split_cycles_partition:
  assumes "potential \<noteq> []"
  shows "\<exists>segs. split_cycles_by_return_to_start near potential tol = Inr segs
     \<and> (\<forall>i < length potential. length (filter (\<lambda>(s, e). s \<le> i \<and> i < e) segs) = 1)
     \<and> (\<forall>(s, e) \<in> set segs. s < e \<and> e \<le> length potential)
     \<and> (\<forall>k. Suc k < length segs \<longrightarrow> snd (segs ! k) = fst (segs ! Suc k))
     \<and> sorted_wrt (\<lambda>r r'. snd r \<le> fst r') segs
     \<and> sorted_wrt (<) (map fst segs)
     \<and> fst (hd segs) = 0 \<and> snd (last segs) = length potential"
proof -
  from split_cycles_chain [OF assms] obtain segs where
    r: "split_cycles_by_return_to_start near potential tol = Inr segs"
    and c: "chain 0 segs (length potential)"
    by blast
  from c assms have ne: "segs \<noteq> []" by (cases segs) auto
  have 1: "\<forall>i < length potential. length (filter (\<lambda>(s, e). s \<le> i \<and> i < e) segs) = 1"
    using chain_covers_once [OF c] by simp
  have 2: "\<forall>(s, e) \<in> set segs. s < e \<and> e \<le> length potential"
    using chain_bounds [OF c] by auto
  have 3: "\<forall>k. Suc k < length segs \<longrightarrow> snd (segs ! k) = fst (segs ! Suc k)"
    using chain_contiguous [OF c] by simp
  note 4 = chain_disjoint [OF c] and 5 = chain_starts_increase [OF c]
    and 6 = chain_ends [OF c ne]
  from r 1 2 3 4 5 6 show ?thesis by blast
qed

theorem split_cycles_partition_witness:
  "[0, 1, 0] \<noteq> ([] :: real list)
   \<and> split_cycles_by_return_to_start exact_near [0, 1, 0] default_tol = Inr [(0, 3)]"
  using split_cycles_partition
    [where potential = "[0, 1, 0]" and near = exact_near and tol = default_tol]
  by (simp add: split_cycles_by_return_to_start_def default_tol_def exact_near_def)

text \<open>
  C1 fails on the empty sequence, where the segments to return are none: line 37 reads
  \<^verbatim>\<open>potential[0]\<close> and raises before the loop and before the guard of line 48, so the
  call returns no list of segments, whatever the test and the tolerance.
\<close>

theorem split_cycles_empty_no_segments:
  "\<not> (\<exists>segs. split_cycles_by_return_to_start near [] tol = Inr segs)"
  by (simp add: split_cycles_by_return_to_start_def)

subsection \<open>The loop, step by step\<close>

lemma split_cycles_unfold:
  assumes "potential \<noteq> []"
  shows "\<exists>start' segs'.
           scan_cycles near potential (potential ! 0) tol [1..<length potential] (0, []) = (start', segs')
         \<and> start' < length potential
         \<and> split_cycles_by_return_to_start near potential tol = Inr (segs' @ [(start', length potential)])"
proof -
  obtain v0 tl where p: "potential = v0 # tl"
    using assms by (cases potential) auto
  obtain start' segs' where
    sc: "scan_cycles near potential v0 tol [1..<length potential] (0, []) = (start', segs')"
    by (cases "scan_cycles near potential v0 tol [1..<length potential] (0, [])") auto
  have "chain 0 [] 0" by simp
  from scan_cycles_chain [OF this sc]
  have "start' = 0 \<or> start' \<in> set [1..<length potential]" by auto
  with p have lt: "start' < length potential" by auto
  have "split_cycles_by_return_to_start near potential tol
      = Inr (segs' @ [(start', length potential)])"
    using sc lt by (simp add: split_cycles_by_return_to_start_def p)
  with sc lt p show ?thesis by simp
qed

lemma scan_cycles_long:
  "\<forall>(s, e) \<in> set segs. 10 < e - s \<Longrightarrow>
   scan_cycles near p v0 tol idxs (start, segs) = (start', segs') \<Longrightarrow>
   \<forall>(s, e) \<in> set segs'. 10 < e - s"
proof (induction idxs arbitrary: start segs)
  case Nil
  then show ?case by simp
next
  case (Cons i rest)
  show ?case
  proof (cases "near v0 (p ! i) tol \<and> i - start > 10")
    case True
    then have r: "scan_cycles near p v0 tol rest (i, segs @ [(start, i)]) = (start', segs')"
      using Cons.prems(2) by simp
    have "\<forall>(s, e) \<in> set (segs @ [(start, i)]). 10 < e - s"
      using Cons.prems(1) True by auto
    from Cons.IH [OF this r] show ?thesis .
  next
    case False
    then have r: "scan_cycles near p v0 tol rest (start, segs) = (start', segs')"
      using Cons.prems(2) by auto
    from Cons.IH [OF Cons.prems(1) r] show ?thesis .
  qed
qed

lemma scan_cycles_quiet:
  "\<forall>i \<in> set idxs. \<not> (near v0 (p ! i) tol \<and> i - start > 10) \<Longrightarrow>
   scan_cycles near p v0 tol idxs (start, segs) = (start, segs)"
  by (induction idxs) auto


lemma run23_split:
  "split_cycles_by_return_to_start exact_near run23 default_tol = Inr [(0, 11), (11, 22), (22, 23)]"
  by (simp add: split_cycles_by_return_to_start_def default_tol_def exact_near_def run23_def upt_conv_Cons)

subsection \<open>Closing rule and examples\<close>




text \<open>
  On sequences with at least one point: a single point gives exactly the segment
  \<open>(0, 1)\<close>, and when the two tests of line 43 hold together at no index the result is
  exactly one segment spanning the whole sequence.
\<close>

theorem split_cycles_one_segment:
  "split_cycles_by_return_to_start near [v] tol = Inr [(0, 1)]
   \<and> (potential \<noteq> []
        \<and> (\<forall>i. 1 \<le> i \<and> i < length potential
              \<longrightarrow> \<not> (near (potential ! 0) (potential ! i) tol \<and> i - 0 > 10))
      \<longrightarrow> split_cycles_by_return_to_start near potential tol = Inr [(0, length potential)])"
proof (intro conjI impI)
  show "split_cycles_by_return_to_start near [v] tol = Inr [(0, 1)]"
    by (simp add: split_cycles_by_return_to_start_def)
next
  assume a: "potential \<noteq> []
        \<and> (\<forall>i. 1 \<le> i \<and> i < length potential
              \<longrightarrow> \<not> (near (potential ! 0) (potential ! i) tol \<and> i - 0 > 10))"
  then obtain v0 tl where p: "potential = v0 # tl" by (cases potential) auto
  then have v0: "potential ! 0 = v0" by simp
  have "\<forall>i \<in> set [1..<length potential]. \<not> (near v0 (potential ! i) tol \<and> i - 0 > 10)"
    using a v0 by auto
  then have "scan_cycles near potential v0 tol [1..<length potential] (0, []) = (0, [])"
    by (rule scan_cycles_quiet)
  then show "split_cycles_by_return_to_start near potential tol = Inr [(0, length potential)]"
    by (simp add: split_cycles_by_return_to_start_def p)
qed

theorem split_cycles_one_segment_witness:
  "split_cycles_by_return_to_start exact_near [5] default_tol = Inr [(0, 1)]
   \<and> [0, 1, 2, 0] \<noteq> ([] :: real list)
   \<and> split_cycles_by_return_to_start exact_near [0, 1, 2, 0] default_tol = Inr [(0, length [0, 1, 2, 0 :: real])]"
  using split_cycles_one_segment
    [where near = exact_near and v = 5 and tol = default_tol and potential = "[0, 1, 2, 0]"]
  by simp

text \<open>
  C3 fails on the empty sequence: the call does not yield at most one segment there, it
  raises \<^verbatim>\<open>IndexError\<close> in line 37.
\<close>

theorem split_cycles_empty_index_error:
  "split_cycles_by_return_to_start near [] tol = Inl IndexError"
  by (simp add: split_cycles_by_return_to_start_def)

text \<open>
  C10: for a sequence with at least one point the call returns, every segment is
  non-empty, and every segment but the last is longer than ten points, whatever the
  test of line 43 answers.
\<close>

theorem split_cycles_lengths:
  assumes "potential \<noteq> []"
  shows "\<exists>segs. split_cycles_by_return_to_start near potential tol = Inr segs
     \<and> (\<forall>(s, e) \<in> set segs. s < e)
     \<and> (\<forall>k. Suc k < length segs \<longrightarrow> 10 < snd (segs ! k) - fst (segs ! k))"
proof -
  from split_cycles_unfold [OF assms] obtain start' segs' where
    sc: "scan_cycles near potential (potential ! 0) tol [1..<length potential] (0, []) = (start', segs')"
    and r: "split_cycles_by_return_to_start near potential tol = Inr (segs' @ [(start', length potential)])"
    by blast
  let ?segs = "segs' @ [(start', length potential)]"
  from split_cycles_chain [OF assms, where near = near and tol = tol] r
  have c: "chain 0 ?segs (length potential)" by auto
  have 1: "\<forall>(s, e) \<in> set ?segs. s < e"
    using chain_bounds [OF c] by blast
  have "\<forall>(s, e) \<in> set ([] :: (nat \<times> nat) list). 10 < e - s" by simp
  from scan_cycles_long [OF this sc]
  have long: "\<forall>(s, e) \<in> set segs'. 10 < e - s" .
  have 2: "\<forall>k. Suc k < length ?segs \<longrightarrow> 10 < snd (?segs ! k) - fst (?segs ! k)"
  proof (intro allI impI)
    fix k assume "Suc k < length ?segs"
    then have k: "k < length segs'" by simp
    then have "segs' ! k \<in> set segs'" by simp
    with long have "10 < snd (segs' ! k) - fst (segs' ! k)"
      by (auto simp: case_prod_beta)
    with k show "10 < snd (?segs ! k) - fst (?segs ! k)"
      by (simp add: nth_append)
  qed
  from r 1 2 show ?thesis by blast
qed

theorem split_cycles_lengths_witness:
  "run23 \<noteq> []
   \<and> split_cycles_by_return_to_start exact_near run23 default_tol = Inr [(0, 11), (11, 22), (22, 23)]"
  using split_cycles_lengths [where potential = run23 and near = exact_near and tol = default_tol]
  by (simp add: run23_split) (simp add: run23_def)

section \<open>Properties of the peak locator\<close>

lemma argmax_scan_spec:
  assumes "length pre = i" "pos < i" "pre ! pos = best"
    and "\<forall>j<i. pre ! j \<le> best" and "\<forall>j<pos. pre ! j < best"
  shows "argmax_scan best pos i vs < length (pre @ vs)
     \<and> (\<forall>j < length (pre @ vs). (pre @ vs) ! j \<le> (pre @ vs) ! argmax_scan best pos i vs)
     \<and> (\<forall>j < argmax_scan best pos i vs. (pre @ vs) ! j < (pre @ vs) ! argmax_scan best pos i vs)"
  using assms
proof (induction vs arbitrary: pre best pos i)
  case Nil
  then show ?case by auto
next
  case (Cons v vs)
  have split: "pre @ v # vs = (pre @ [v]) @ vs" by simp
  have len: "length (pre @ [v]) = Suc i" using Cons.prems(1) by simp
  show ?case
  proof (cases "best < v")
    case True
    have a: "i < Suc i" by simp
    have b: "(pre @ [v]) ! i = v" using Cons.prems(1) by (simp add: nth_append)
    have c: "\<forall>j<Suc i. (pre @ [v]) ! j \<le> v"
      using Cons.prems(1,4) True by (auto simp: nth_append less_Suc_eq)
    have d: "\<forall>j<i. (pre @ [v]) ! j < v"
      using Cons.prems(1,4) True by (auto simp: nth_append)
    from Cons.IH [OF len a b c d] True show ?thesis
      unfolding split by simp
  next
    case False
    have a: "pos < Suc i" using Cons.prems(2) by simp
    have b: "(pre @ [v]) ! pos = best"
      using Cons.prems(1,2,3) by (simp add: nth_append)
    have c: "\<forall>j<Suc i. (pre @ [v]) ! j \<le> best"
      using Cons.prems(1,4) False by (auto simp: nth_append less_Suc_eq)
    have d: "\<forall>j<pos. (pre @ [v]) ! j < best"
      using Cons.prems(1,2,5) by (auto simp: nth_append)
    from Cons.IH [OF len a b c d] False show ?thesis
      unfolding split by simp
  qed
qed

lemma argmin_scan_neg:
  "argmin_scan best pos i vs = argmax_scan (- best) pos i (map uminus vs)"
  by (induction vs arbitrary: best pos i) auto

lemma np_argmax_spec:
  assumes "a \<noteq> []"
  shows "\<exists>r. np_argmax a = Inr r \<and> r < length a
     \<and> (\<forall>j < length a. a ! j \<le> a ! r) \<and> (\<forall>j < r. a ! j < a ! r)"
proof -
  obtain v vs where a: "a = v # vs" using assms by (cases a) auto
  have "argmax_scan v 0 1 vs < length ([v] @ vs)
     \<and> (\<forall>j < length ([v] @ vs). ([v] @ vs) ! j \<le> ([v] @ vs) ! argmax_scan v 0 1 vs)
     \<and> (\<forall>j < argmax_scan v 0 1 vs. ([v] @ vs) ! j < ([v] @ vs) ! argmax_scan v 0 1 vs)"
    by (rule argmax_scan_spec) auto
  then show ?thesis by (simp add: np_argmax_def a)
qed

lemma np_argmin_spec:
  assumes "a \<noteq> []"
  shows "\<exists>r. np_argmin a = Inr r \<and> r < length a
     \<and> (\<forall>j < length a. a ! r \<le> a ! j) \<and> (\<forall>j < r. a ! r < a ! j)"
proof -
  obtain v vs where a: "a = v # vs" using assms by (cases a) auto
  let ?b = "map uminus a"
  have b: "?b \<noteq> []" using assms by simp
  from np_argmax_spec [OF b] obtain r where
    r: "np_argmax ?b = Inr r" "r < length ?b"
    and m: "\<forall>j < length ?b. ?b ! j \<le> ?b ! r" and f: "\<forall>j < r. ?b ! j < ?b ! r"
    by blast
  have "np_argmin a = Inr r"
    using r(1) by (simp add: np_argmin_def np_argmax_def a argmin_scan_neg)
  moreover have "\<forall>j < length a. a ! r \<le> a ! j"
    using m r(2) by auto
  moreover have "\<forall>j < r. a ! r < a ! j"
    using f r(2) by auto
  ultimately show ?thesis using r(2) by auto
qed

lemmas example_defs =
  file_a_def file_b_def file_run_def run23_def file_no_y_def file_empty_def file_header_only_def point_def
  all_ticked_def flat_fit_def

lemmas model_defs =
  plot_multi_cv_def plot_single_cv_def overlay_lines_def axis_units_def deselected_def
  read_cv_data_def read_csv_def df_get_def first_unit_def List.map_filter_def
  plot_curve_def savgol_filter_def savgol_error_def colors_def colors_N_def
  basename_def label_or_def mark_peak_lines_def np_argmax_def np_argmin_def
  split_cycles_by_return_to_start_def default_tol_def exact_near_def select_cycles_def slice_def
  read_cv_warnings_def plot_single_cv_warnings_def plot_multi_cv_warnings_def
  enumerate_eq_zip upt_conv_Cons string_of_nat.simps


lemma plot_curve_lines_only:
  "plot_curve fit smooth xs ys raw_label raw_color smooth_label smooth_color = Inr ls \<Longrightarrow>
   \<forall>s \<in> set ls. \<exists>c. s_style s = Line c"
  by (auto simp: plot_curve_def Let_def split: if_splits sum.splits)

lemma plot_cycles_lines_only:
  "plot_cycles fit smooth base cidx potential current segments js = Inr ls \<Longrightarrow>
   \<forall>s \<in> set ls. \<exists>c. s_style s = Line c"
proof (induction js arbitrary: ls)
  case Nil
  then show ?case by simp
next
  case (Cons j js)
  obtain s e where se: "segments ! j = (s, e)" by (cases "segments ! j")
  from Cons.prems se obtain hd tl where
    h: "plot_curve fit smooth (slice potential s e) (slice current s e)
          (base @ '' cycle '' @ string_of_nat (j + 1)) (colors (cidx j))
          (base @ '' cycle '' @ string_of_nat (j + 1) @ '' smoothed'') (colors (cidx j)) = Inr hd"
    and t: "plot_cycles fit smooth base cidx potential current segments js = Inr tl"
    and l: "ls = hd @ tl"
    by (auto split: sum.splits)
  from plot_curve_lines_only [OF h] Cons.IH [OF t] l show ?case by auto
qed

text \<open>
  What \<^verbatim>\<open>plot_single_cv\<close> returns on a loaded file, by the two options that decide the
  markers.
\<close>

lemma plot_single_cv_whole:
  assumes "read_cv_data False csv_file = (Some potential, Some current, x_unit, y_unit)"
  shows "plot_single_cv ui fit csv_file label smooth mark_peaks False =
     (case plot_curve fit smooth potential current
             (label_or label (basename (name csv_file)) @ '' (raw)'') (Named ''blue'')
             (label_or label (basename (name csv_file)) @ '' (smoothed)'') (Named ''red'') of
        Inl e \<Rightarrow> Inl e
      | Inr ls \<Rightarrow>
          (case (if mark_peaks then mark_peak_lines potential current else Inr []) of
             Inl e \<Rightarrow> Inl e
           | Inr peaks \<Rightarrow>
               Inr \<lparr>lines = ls @ peaks,
                    xlabel = ''Potential ('' @ x_unit @ '')'',
                    ylabel = ''Current ('' @ y_unit @ '')''\<rparr>))"
  using assms by (simp add: plot_single_cv_def Let_def)

lemma plot_single_cv_split:
  assumes "read_cv_data False csv_file = (Some potential, Some current, x_unit, y_unit)"
  shows "plot_single_cv ui fit csv_file label smooth mark_peaks True =
     (case (case split_cycles_by_return_to_start (x_near csv_file) potential default_tol of
              Inl e \<Rightarrow> Inl e
            | Inr segments \<Rightarrow>
                plot_cycles fit smooth (label_or label (basename (name csv_file)))
                  (\<lambda>i. i mod colors_N) potential current
                  segments (select_cycles ui segments SingleCycles)) of
        Inl e \<Rightarrow> Inl e
      | Inr ls \<Rightarrow>
          Inr \<lparr>lines = ls,
               xlabel = ''Potential ('' @ x_unit @ '')'',
               ylabel = ''Current ('' @ y_unit @ '')''\<rparr>)"
  using assms by (simp add: plot_single_cv_def Let_def cong: sum.case_cong)

lemma plot_single_cv_marked:
  assumes r: "read_cv_data False csv_file = (Some potential, Some current, x_unit, y_unit)"
    and f: "plot_single_cv ui fit csv_file label smooth True False = Inr fig"
  shows "\<exists>ls peaks. mark_peak_lines potential current = Inr peaks
     \<and> lines fig = ls @ peaks \<and> (\<forall>s \<in> set ls. \<exists>c. s_style s = Line c)"
proof -
  let ?curve = "plot_curve fit smooth potential current
             (label_or label (basename (name csv_file)) @ '' (raw)'') (Named ''blue'')
             (label_or label (basename (name csv_file)) @ '' (smoothed)'') (Named ''red'')"
  from f obtain ls where c: "?curve = Inr ls"
    unfolding plot_single_cv_whole [OF r] by (cases ?curve) simp_all
  from f c obtain peaks where p: "mark_peak_lines potential current = Inr peaks"
    unfolding plot_single_cv_whole [OF r] by (cases "mark_peak_lines potential current") simp_all
  from f c p have "lines fig = ls @ peaks"
    unfolding plot_single_cv_whole [OF r] by auto
  with p plot_curve_lines_only [OF c] show ?thesis by blast
qed

lemma plot_single_cv_unmarked:
  assumes o: "auto_split \<or> \<not> mark_peaks"
    and f: "plot_single_cv ui fit csv_file label smooth mark_peaks auto_split = Inr fig"
  shows "\<forall>s \<in> set (lines fig). \<exists>c. s_style s = Line c"
proof -
  obtain potential current x_unit y_unit where
    r: "read_cv_data False csv_file = (Some potential, Some current, x_unit, y_unit)"
  proof (cases "read_cv_data False csv_file")
    case (fields p c xu yu)
    with f have "p \<noteq> None \<and> c \<noteq> None"
      by (auto simp: plot_single_cv_def split: option.splits)
    with fields that show ?thesis by auto
  qed
  show ?thesis
  proof (cases auto_split)
    case True
    with f have f: "plot_single_cv ui fit csv_file label smooth mark_peaks True = Inr fig"
      by simp
    let ?segs = "split_cycles_by_return_to_start (x_near csv_file) potential default_tol"
    from f obtain segments where s: "?segs = Inr segments"
      unfolding plot_single_cv_split [OF r] by (cases ?segs) simp_all
    let ?cyc = "plot_cycles fit smooth (label_or label (basename (name csv_file)))
                  (\<lambda>i. i mod colors_N) potential current
                  segments (select_cycles ui segments SingleCycles)"
    from f s obtain ls where c: "?cyc = Inr ls"
      unfolding plot_single_cv_split [OF r] by (cases ?cyc) simp_all
    from f s c have "lines fig = ls"
      unfolding plot_single_cv_split [OF r] by auto
    with plot_cycles_lines_only [OF c] show ?thesis by simp
  next
    case False
    with o have m: "\<not> mark_peaks" by simp
    with f False
    have f: "plot_single_cv ui fit csv_file label smooth False False = Inr fig"
      by simp
    let ?curve = "plot_curve fit smooth potential current
             (label_or label (basename (name csv_file)) @ '' (raw)'') (Named ''blue'')
             (label_or label (basename (name csv_file)) @ '' (smoothed)'') (Named ''red'')"
    from f obtain ls where c: "?curve = Inr ls"
      unfolding plot_single_cv_whole [OF r] by (cases ?curve) simp_all
    from f c have "lines fig = ls"
      unfolding plot_single_cv_whole [OF r] by auto
    with plot_curve_lines_only [OF c] show ?thesis by simp
  qed
qed

lemma plot_single_cv_raw_marked:
  assumes "read_cv_data False csv_file = (Some potential, Some current, x_unit, y_unit)"
    and "mark_peak_lines potential current = Inr peaks"
  shows "plot_single_cv ui fit csv_file label False True False =
     Inr \<lparr>lines =
            \<lparr>s_x = potential, s_y = current,
              s_label = label_or label (basename (name csv_file)) @ '' (raw)'',
              s_style = Line (Named ''blue'')\<rparr> # peaks,
          xlabel = ''Potential ('' @ x_unit @ '')'',
          ylabel = ''Current ('' @ y_unit @ '')''\<rparr>"
  using assms(2) by (simp add: plot_single_cv_whole [OF assms(1)] plot_curve_def)


text \<open>
  C7: on a loaded file whose current has at least one point, the two indices of lines
  87--88 are the position of a maximum and of a minimum of the whole current, each the
  first position where that value occurs. With \<^verbatim>\<open>mark_peaks\<close> on and \<^verbatim>\<open>auto_split\<close>
  off, every figure that \<^verbatim>\<open>plot_single_cv\<close> returns ends with the two markers at these
  positions, after curves that carry no marker, and without smoothing the call does
  return: the raw curve and the two markers. With \<^verbatim>\<open>auto_split\<close> on or
  \<^verbatim>\<open>mark_peaks\<close> off no series of the figure is a marker, and with \<^verbatim>\<open>auto_split\<close> on
  the result does not depend on \<^verbatim>\<open>mark_peaks\<close>. On \<^verbatim>\<open>[1,5,2,-3,0]\<close> the indices are 1
  and 3.
\<close>

theorem peak_locator:
  assumes "read_cv_data False csv_file = (Some potential, Some current, x_unit, y_unit)"
    and "current \<noteq> []"
  shows "\<exists>ox red. np_argmax current = Inr ox \<and> np_argmin current = Inr red
     \<and> ox < length current \<and> red < length current
     \<and> (\<forall>j < length current. current ! j \<le> current ! ox)
     \<and> (\<forall>j < ox. current ! j < current ! ox)
     \<and> (\<forall>j < length current. current ! red \<le> current ! j)
     \<and> (\<forall>j < red. current ! red < current ! j)
     \<and> (\<forall>fig. plot_single_cv ui fit csv_file label smooth True False = Inr fig \<longrightarrow>
           (\<exists>ls. lines fig = ls @
                [\<lparr>s_x = [potential ! ox], s_y = [current ! ox],
                   s_label = ''Ox peak'', s_style = Marker ''ro''\<rparr>,
                 \<lparr>s_x = [potential ! red], s_y = [current ! red],
                   s_label = ''Red peak'', s_style = Marker ''bo''\<rparr>]
              \<and> (\<forall>s \<in> set ls. \<exists>c. s_style s = Line c)))
     \<and> plot_single_cv ui fit csv_file label False True False =
          Inr \<lparr>lines =
                 [\<lparr>s_x = potential, s_y = current,
                    s_label = label_or label (basename (name csv_file)) @ '' (raw)'',
                    s_style = Line (Named ''blue'')\<rparr>,
                  \<lparr>s_x = [potential ! ox], s_y = [current ! ox],
                    s_label = ''Ox peak'', s_style = Marker ''ro''\<rparr>,
                  \<lparr>s_x = [potential ! red], s_y = [current ! red],
                    s_label = ''Red peak'', s_style = Marker ''bo''\<rparr>],
               xlabel = ''Potential ('' @ x_unit @ '')'',
               ylabel = ''Current ('' @ y_unit @ '')''\<rparr>
     \<and> (\<forall>fig. (auto_split \<or> \<not> mark_peaks)
            \<and> plot_single_cv ui fit csv_file label smooth mark_peaks auto_split = Inr fig \<longrightarrow>
           (\<forall>s \<in> set (lines fig). \<exists>c. s_style s = Line c))
     \<and> plot_single_cv ui fit csv_file label smooth mark_peaks True
          = plot_single_cv ui fit csv_file label smooth False True
     \<and> np_argmax [1, 5, 2, - 3, 0] = Inr 1 \<and> np_argmin [1, 5, 2, - 3, 0] = Inr 3"
proof -
  from np_argmax_spec [OF assms(2)] obtain ox where
    ox: "np_argmax current = Inr ox" "ox < length current"
      "\<forall>j < length current. current ! j \<le> current ! ox" "\<forall>j < ox. current ! j < current ! ox"
    by blast
  from np_argmin_spec [OF assms(2)] obtain red where
    red: "np_argmin current = Inr red" "red < length current"
      "\<forall>j < length current. current ! red \<le> current ! j" "\<forall>j < red. current ! red < current ! j"
    by blast
  let ?peaks = "[\<lparr>s_x = [potential ! ox], s_y = [current ! ox],
                   s_label = ''Ox peak'', s_style = Marker ''ro''\<rparr>,
                 \<lparr>s_x = [potential ! red], s_y = [current ! red],
                   s_label = ''Red peak'', s_style = Marker ''bo''\<rparr>]"
  have pk: "mark_peak_lines potential current = Inr ?peaks"
    by (simp add: mark_peak_lines_def ox(1) red(1))
  have a: "\<forall>fig. plot_single_cv ui fit csv_file label smooth True False = Inr fig \<longrightarrow>
           (\<exists>ls. lines fig = ls @ ?peaks \<and> (\<forall>s \<in> set ls. \<exists>c. s_style s = Line c))"
  proof (intro allI impI)
    fix fig
    assume "plot_single_cv ui fit csv_file label smooth True False = Inr fig"
    from plot_single_cv_marked [OF assms(1) this] pk
    show "\<exists>ls. lines fig = ls @ ?peaks \<and> (\<forall>s \<in> set ls. \<exists>c. s_style s = Line c)"
      by auto
  qed
  have b: "plot_single_cv ui fit csv_file label False True False =
          Inr \<lparr>lines =
                 \<lparr>s_x = potential, s_y = current,
                    s_label = label_or label (basename (name csv_file)) @ '' (raw)'',
                    s_style = Line (Named ''blue'')\<rparr> # ?peaks,
               xlabel = ''Potential ('' @ x_unit @ '')'',
               ylabel = ''Current ('' @ y_unit @ '')''\<rparr>"
    using assms(1) pk by (rule plot_single_cv_raw_marked)
  have c: "\<forall>fig. (auto_split \<or> \<not> mark_peaks)
            \<and> plot_single_cv ui fit csv_file label smooth mark_peaks auto_split = Inr fig \<longrightarrow>
           (\<forall>s \<in> set (lines fig). \<exists>c. s_style s = Line c)"
  proof (intro allI impI)
    fix fig
    assume "(auto_split \<or> \<not> mark_peaks)
            \<and> plot_single_cv ui fit csv_file label smooth mark_peaks auto_split = Inr fig"
    then show "\<forall>s \<in> set (lines fig). \<exists>c. s_style s = Line c"
      using plot_single_cv_unmarked by blast
  qed
  have d: "plot_single_cv ui fit csv_file label smooth mark_peaks True
          = plot_single_cv ui fit csv_file label smooth False True"
    by (simp add: plot_single_cv_def split: prod.splits option.splits)
  have e: "np_argmax [1, 5, 2, - 3, 0] = Inr 1" by (simp add: np_argmax_def)
  have f: "np_argmin [1, 5, 2, - 3, 0] = Inr 3" by (simp add: np_argmin_def)
  show ?thesis
    by (intro exI [of _ ox] exI [of _ red] conjI ox red a b c d e f)
qed


lemma file_a_loaded:
  "read_cv_data False file_a = (Some [0, 1], Some [1, 2], ''mV'', ''mA'')"
  by (simp add: model_defs example_defs)

theorem peak_locator_witness:
  "read_cv_data False file_a = (Some [0, 1], Some [1, 2], ''mV'', ''mA'')
   \<and> [1, 2] \<noteq> ([] :: real list)
   \<and> np_argmax [1, 2] = Inr 1 \<and> np_argmin [1, 2] = Inr 0
   \<and> plot_single_cv all_ticked flat_fit file_a None False True False =
        Inr \<lparr>lines =
               [\<lparr>s_x = [0, 1], s_y = [1, 2], s_label = ''a.csv (raw)'',
                  s_style = Line (Named ''blue'')\<rparr>,
                \<lparr>s_x = [1], s_y = [2], s_label = ''Ox peak'', s_style = Marker ''ro''\<rparr>,
                \<lparr>s_x = [0], s_y = [1], s_label = ''Red peak'', s_style = Marker ''bo''\<rparr>],
             xlabel = ''Potential (mV)'', ylabel = ''Current (mA)''\<rparr>"
proof -
  have ne: "[1, 2] \<noteq> ([] :: real list)" by simp
  note t = peak_locator [OF file_a_loaded ne, where ui = all_ticked and fit = flat_fit
      and label = None and smooth = False and mark_peaks = True and auto_split = False]
  have "\<exists>ox red. np_argmax [1, 2] = Inr ox \<and> np_argmin [1, 2] = Inr red
     \<and> plot_single_cv all_ticked flat_fit file_a None False True False =
          Inr \<lparr>lines =
                 [\<lparr>s_x = [0, 1], s_y = [1, 2],
                    s_label = label_or None (basename (name file_a)) @ '' (raw)'',
                    s_style = Line (Named ''blue'')\<rparr>,
                  \<lparr>s_x = [[0, 1] ! ox], s_y = [[1, 2] ! ox],
                    s_label = ''Ox peak'', s_style = Marker ''ro''\<rparr>,
                  \<lparr>s_x = [[0, 1] ! red], s_y = [[1, 2] ! red],
                    s_label = ''Red peak'', s_style = Marker ''bo''\<rparr>],
               xlabel = ''Potential ('' @ ''mV'' @ '')'',
               ylabel = ''Current ('' @ ''mA'' @ '')''\<rparr>"
    using t by (elim exE conjE) (rule exI, rule exI, intro conjI, assumption+)
  then obtain ox red where
    ox: "np_argmax [1, 2] = Inr ox" and red: "np_argmin [1, 2] = Inr red"
    and fig: "plot_single_cv all_ticked flat_fit file_a None False True False =
          Inr \<lparr>lines =
                 [\<lparr>s_x = [0, 1], s_y = [1, 2],
                    s_label = label_or None (basename (name file_a)) @ '' (raw)'',
                    s_style = Line (Named ''blue'')\<rparr>,
                  \<lparr>s_x = [[0, 1] ! ox], s_y = [[1, 2] ! ox],
                    s_label = ''Ox peak'', s_style = Marker ''ro''\<rparr>,
                  \<lparr>s_x = [[0, 1] ! red], s_y = [[1, 2] ! red],
                    s_label = ''Red peak'', s_style = Marker ''bo''\<rparr>],
               xlabel = ''Potential ('' @ ''mV'' @ '')'',
               ylabel = ''Current ('' @ ''mA'' @ '')''\<rparr>"
    by (elim exE conjE)
  have o1: "np_argmax [1, 2] = Inr 1" and r0: "np_argmin [1, 2] = Inr 0"
    by (simp_all add: np_argmax_def np_argmin_def)
  with ox red have v: "ox = 1" "red = 0" by simp_all
  have "plot_single_cv all_ticked flat_fit file_a None False True False =
        Inr \<lparr>lines =
               [\<lparr>s_x = [0, 1], s_y = [1, 2], s_label = ''a.csv (raw)'',
                  s_style = Line (Named ''blue'')\<rparr>,
                \<lparr>s_x = [1], s_y = [2], s_label = ''Ox peak'', s_style = Marker ''ro''\<rparr>,
                \<lparr>s_x = [0], s_y = [1], s_label = ''Red peak'', s_style = Marker ''bo''\<rparr>],
             xlabel = ''Potential (mV)'', ylabel = ''Current (mA)''\<rparr>"
    unfolding fig v by (simp add: label_or_def basename_def file_a_def)
  note final = this
  from file_a_loaded ne o1 r0 final show ?thesis by (intro conjI)
qed

section \<open>Properties of the loader and of the two modes\<close>


lemma read_cv_data_lacks:
  "parsed f = Parsed df \<Longrightarrow> ''x'' \<notin> set (columns df) \<or> ''y'' \<notin> set (columns df) \<Longrightarrow>
   fst (read_cv_data False f) = None \<or> fst (snd (read_cv_data False f)) = None"
  by (auto simp: read_cv_data_def read_csv_def df_get_def)

lemma plot_single_cv_no_data:
  "fst (read_cv_data False f) = None \<or> fst (snd (read_cv_data False f)) = None \<Longrightarrow>
   plot_single_cv ui fit f label smooth mark_peaks auto_split
     = Inl (ValueError ''CSV missing required columns'')"
  by (auto simp: plot_single_cv_def split: prod.splits option.splits)

lemma overlay_files_no_data:
  assumes "fst (read_cv_data False f) = None \<or> fst (snd (read_cv_data False f)) = None"
  shows "overlay_files ui fit smooth sel auto_split (before @ (i, f) # after)
       = overlay_files ui fit smooth sel auto_split (before @ after)"
proof (induction before)
  case Nil
  from assms show ?case
    by (auto split: prod.splits option.splits)
next
  case (Cons e before)
  obtain k g where e: "e = (k, g)" by (cases e)
  from Cons.IH show ?case
    by (simp add: e split: prod.splits option.splits sum.splits)
qed

lemma plot_multi_cv_lines:
  "map_sum id lines (plot_multi_cv ui fit files smooth sel auto_split)
     = overlay_files ui fit smooth sel auto_split (List.enumerate 0 files)"
  by (simp add: plot_multi_cv_def split: sum.splits prod.splits)

lemma plot_multi_cv_without:
  assumes "fst (read_cv_data False f) = None \<or> fst (snd (read_cv_data False f)) = None"
  shows "map_sum id lines (plot_multi_cv ui fit (pre @ f # post) smooth sel auto_split)
       = overlay_files ui fit smooth sel auto_split
           (List.enumerate 0 pre @ List.enumerate (Suc (length pre)) post)"
  using overlay_files_no_data [OF assms]
  by (simp add: plot_multi_cv_lines enumerate_append_eq)

lemma overlay_warnings_no_data:
  assumes "parsed f = Parsed df"
    and "fst (read_cv_data False f) = None \<or> fst (snd (read_cv_data False f)) = None"
  shows "overlay_warnings ui fit smooth sel auto_split (before @ (i, f) # after)
       = overlay_warnings ui fit smooth sel auto_split (before @ after)"
proof (induction before)
  case Nil
  from assms show ?case
    by (auto simp: read_cv_warnings_def read_csv_def split: prod.splits option.splits)
next
  case (Cons e before)
  obtain k g where e: "e = (k, g)" by (cases e)
  from Cons.IH show ?case
    by (simp add: e split: prod.splits option.splits sum.splits)
qed

text \<open>
  When the frame of a file has no column \<^verbatim>\<open>x\<close> or no column \<^verbatim>\<open>y\<close>, single-file mode
  raises \<^verbatim>\<open>ValueError\<close> whatever the options are, while the loop of overlay mode
  passes over the file and writes no message for it: the lines of the figure are those
  that the other files give, each under its own position in the list, and an error
  arises only if one of them raises.
\<close>

theorem missing_columns:
  assumes "parsed f = Parsed df"
    and "''x'' \<notin> set (columns df) \<or> ''y'' \<notin> set (columns df)"
  shows "plot_single_cv ui fit f label smooth mark_peaks auto_split
           = Inl (ValueError ''CSV missing required columns'')
     \<and> overlay_files ui fit smooth sel auto_split (before @ (i, f) # after)
           = overlay_files ui fit smooth sel auto_split (before @ after)
     \<and> map_sum id lines (plot_multi_cv ui fit (pre @ f # post) smooth sel auto_split)
           = overlay_files ui fit smooth sel auto_split
               (List.enumerate 0 pre @ List.enumerate (Suc (length pre)) post)
     \<and> overlay_warnings ui fit smooth sel auto_split (before @ (i, f) # after)
           = overlay_warnings ui fit smooth sel auto_split (before @ after)"
proof -
  note n = read_cv_data_lacks [OF assms]
  show ?thesis
    by (intro conjI plot_single_cv_no_data [OF n] overlay_files_no_data [OF n]
        plot_multi_cv_without [OF n] overlay_warnings_no_data [OF assms(1) n])
qed

lemma overlay_b_alone:
  "overlay_files all_ticked flat_fit False None False [(1, file_b)]
     = Inr [\<lparr>s_x = [0, 1], s_y = [3, - 1], s_label = ''b (raw)'', s_style = Line (Tab10 1)\<rparr>]"
  by (simp add: model_defs example_defs)

theorem missing_columns_witness:
  "parsed file_no_y = Parsed \<lparr>columns = [''x''], rows = [point 0 0]\<rparr>
   \<and> ''y'' \<notin> set (columns \<lparr>columns = [''x''], rows = [point 0 0]\<rparr>)
   \<and> plot_single_cv all_ticked flat_fit file_no_y None False False False
        = Inl (ValueError ''CSV missing required columns'')
   \<and> map_sum id lines (plot_multi_cv all_ticked flat_fit [file_no_y, file_b] False None False)
        = Inr [\<lparr>s_x = [0, 1], s_y = [3, - 1], s_label = ''b (raw)'', s_style = Line (Tab10 1)\<rparr>]"
proof -
  have p: "parsed file_no_y = Parsed \<lparr>columns = [''x''], rows = [point 0 0]\<rparr>"
    by (simp add: file_no_y_def)
  have y: "''y'' \<notin> set (columns \<lparr>columns = [''x''], rows = [point 0 0]\<rparr>)"
    by simp
  then have c: "''x'' \<notin> set (columns \<lparr>columns = [''x''], rows = [point 0 0]\<rparr>)
      \<or> ''y'' \<notin> set (columns \<lparr>columns = [''x''], rows = [point 0 0]\<rparr>)"
    by blast
  from missing_columns [OF p c, of all_ticked flat_fit None False False False None "[]" 0 "[]" "[]" "[file_b]"]
  have "plot_single_cv all_ticked flat_fit file_no_y None False False False
        = Inl (ValueError ''CSV missing required columns'')"
    and "map_sum id lines (plot_multi_cv all_ticked flat_fit [file_no_y, file_b] False None False)
        = overlay_files all_ticked flat_fit False None False [(1, file_b)]"
    by (simp_all add: enumerate_eq_zip)
  with p y overlay_b_alone show ?thesis by simp
qed

text \<open>
  C6 fails when the file without a column is \<^verbatim>\<open>files[0]\<close> and is selected. Here the
  first of two uploads has no column \<^verbatim>\<open>y\<close>. The loop passes over it and writes
  nothing, and the figure holds the curve of the second upload; but line 131 hands the
  first upload to the loader again, its stream is at its end, the parser raises
  \<^verbatim>\<open>EmptyDataError\<close>, and line 14 writes the warning that names the file: it is not
  passed over silently.
\<close>

theorem missing_columns_first_file_warned:
  "parsed file_no_y = Parsed \<lparr>columns = [''x''], rows = [point 0 0]\<rparr>
   \<and> \<not> deselected None file_no_y
   \<and> map_sum id lines (plot_multi_cv all_ticked flat_fit [file_no_y, file_b] False None False)
        = Inr [\<lparr>s_x = [0, 1], s_y = [3, - 1], s_label = ''b (raw)'', s_style = Line (Tab10 1)\<rparr>]
   \<and> overlay_warnings all_ticked flat_fit False None False
        (List.enumerate 0 [file_no_y, file_b]) = []
   \<and> plot_multi_cv_warnings all_ticked flat_fit [file_no_y, file_b] False None False
        = [Empty_or_invalid ''c.csv'']"
  by (simp add: model_defs example_defs)




section \<open>Properties of the smoother\<close>

lemma plot_curve_short:
  "length xs < 11 \<Longrightarrow>
   plot_curve fit True xs ys raw_label raw_color smooth_label smooth_color = Inl savgol_error"
  by (simp add: plot_curve_def savgol_filter_def)

lemma plot_curve_error:
  "plot_curve fit smooth xs ys raw_label raw_color smooth_label smooth_color = Inl e \<Longrightarrow>
   e = savgol_error"
  by (auto simp: plot_curve_def savgol_filter_def Let_def split: if_splits sum.splits)

lemma plot_cycles_short:
  "j \<in> set js \<Longrightarrow> segments ! j = (s, e) \<Longrightarrow> length (slice potential s e) < 11 \<Longrightarrow>
   plot_cycles fit True base cidx potential current segments js = Inl savgol_error"
proof (induction js)
  case Nil
  then show ?case by simp
next
  case (Cons k js)
  obtain s' e' where k: "segments ! k = (s', e')" by (cases "segments ! k")
  let ?head = "plot_curve fit True (slice potential s' e') (slice current s' e')
      (base @ '' cycle '' @ string_of_nat (k + 1)) (colors (cidx k))
      (base @ '' cycle '' @ string_of_nat (k + 1) @ '' smoothed'') (colors (cidx k))"
  show ?case
  proof (cases ?head)
    case (Inl err)
    then have "err = savgol_error" by (rule plot_curve_error)
    with Inl k show ?thesis by simp
  next
    case (Inr ls)
    have "j \<noteq> k"
    proof
      assume "j = k"
      with Cons.prems(2,3) k have "?head = Inl savgol_error"
        by (simp add: plot_curve_short)
      with Inr show False by simp
    qed
    with Cons.prems(1) have "j \<in> set js" by simp
    from Cons.IH [OF this Cons.prems(2,3)] Inr k show ?thesis by simp
  qed
qed

text \<open>
  C4: with window 11 and order 3 the filter returns the error on every input of fewer than
  11 values, and on every longer input a sequence of the same length. The error is not
  caught on the way: the plotting block fails with it, and so does
  \<^verbatim>\<open>plot_single_cv\<close> on a loaded curve of fewer than 11 points when smoothing is on and
  splitting is off, and the loop over the chosen cycles when one of them has fewer than
  11 points. On curves of at least 11 points the block plots a smoothed series with as
  many points as the raw one.
\<close>

theorem smoother_contract:
  "(length values < 11 \<longrightarrow> savgol_filter fit values 11 3 = Inl savgol_error)
   \<and> (11 \<le> length values \<longrightarrow>
        (\<exists>out. savgol_filter fit values 11 3 = Inr out \<and> length out = length values))
   \<and> (length xs < 11 \<longrightarrow>
        plot_curve fit True xs ys raw_label raw_color smooth_label smooth_color
          = Inl savgol_error)
   \<and> (11 \<le> length xs \<and> length ys = length xs \<longrightarrow>
        (\<exists>raw smoothed.
           plot_curve fit True xs ys raw_label raw_color smooth_label smooth_color
             = Inr [raw, smoothed]
           \<and> s_x raw = xs \<and> s_y raw = ys
           \<and> length (s_x smoothed) = length xs \<and> length (s_y smoothed) = length ys))
   \<and> (read_cv_data False csv_file = (Some potential, Some current, x_unit, y_unit)
        \<and> length potential < 11 \<longrightarrow>
        plot_single_cv ui fit csv_file label True mark_peaks False = Inl savgol_error)
   \<and> (j \<in> set js \<and> segments ! j = (s, e) \<and> length (slice potential s e) < 11 \<longrightarrow>
        plot_cycles fit True base cidx potential current segments js = Inl savgol_error)"
proof (intro conjI impI)
  assume "length values < 11"
  then show "savgol_filter fit values 11 3 = Inl savgol_error"
    by (simp add: savgol_filter_def)
next
  assume "11 \<le> length values"
  then show "\<exists>out. savgol_filter fit values 11 3 = Inr out \<and> length out = length values"
    by (simp add: savgol_filter_def)
next
  assume "length xs < 11"
  then show "plot_curve fit True xs ys raw_label raw_color smooth_label smooth_color
      = Inl savgol_error"
    by (rule plot_curve_short)
next
  assume "11 \<le> length xs \<and> length ys = length xs"
  then show "\<exists>raw smoothed.
           plot_curve fit True xs ys raw_label raw_color smooth_label smooth_color
             = Inr [raw, smoothed]
           \<and> s_x raw = xs \<and> s_y raw = ys
           \<and> length (s_x smoothed) = length xs \<and> length (s_y smoothed) = length ys"
    by (simp add: plot_curve_def savgol_filter_def)
next
  assume a: "read_cv_data False csv_file = (Some potential, Some current, x_unit, y_unit)
        \<and> length potential < 11"
  then have "plot_curve fit True potential current
      (label_or label (basename (name csv_file)) @ '' (raw)'') (Named ''blue'')
      (label_or label (basename (name csv_file)) @ '' (smoothed)'') (Named ''red'')
      = Inl savgol_error"
    by (simp add: plot_curve_short)
  with a show "plot_single_cv ui fit csv_file label True mark_peaks False = Inl savgol_error"
    by (simp add: plot_single_cv_def)
next
  assume "j \<in> set js \<and> segments ! j = (s, e) \<and> length (slice potential s e) < 11"
  then show "plot_cycles fit True base cidx potential current segments js = Inl savgol_error"
    by (blast intro: plot_cycles_short)
qed

theorem smoother_contract_witness:
  "length [1, 2, 3 :: real] < 11
   \<and> savgol_filter flat_fit [1, 2, 3] 11 3 = Inl savgol_error
   \<and> 11 \<le> length run23
   \<and> (\<exists>out. savgol_filter flat_fit run23 11 3 = Inr out \<and> length out = length run23)
   \<and> read_cv_data False file_a = (Some [0, 1], Some [1, 2], ''mV'', ''mA'')
   \<and> plot_single_cv all_ticked flat_fit file_a None True False False = Inl savgol_error"
proof -
  have r: "read_cv_data False file_a = (Some [0, 1], Some [1, 2], ''mV'', ''mA'')"
    by (simp add: model_defs example_defs)
  have l: "11 \<le> length run23" by (simp add: run23_def)
  note t = smoother_contract [of _ flat_fit _ _ _ _ _ _ file_a "[0, 1]" "[1, 2]" "''mV''" "''mA''"
      all_ticked None False]
  from t [of "[1, 2, 3]"] have 1: "savgol_filter flat_fit [1, 2, 3] 11 3 = Inl savgol_error"
    by simp
  from t [of run23] l
  have 2: "\<exists>out. savgol_filter flat_fit run23 11 3 = Inr out \<and> length out = length run23"
    by blast
  from t [of "[]"] r
  have 3: "plot_single_cv all_ticked flat_fit file_a None True False False = Inl savgol_error"
    by simp
  from r l 1 2 3 show ?thesis by simp
qed

section \<open>Properties of overlay mode\<close>

lemma plot_curve_series:
  "plot_curve fit smooth xs ys raw_label raw_color smooth_label smooth_color = Inr ls \<Longrightarrow>
   map (\<lambda>s. (s_label s, s_style s)) ls
     = (raw_label, Line raw_color) # (if smooth then [(smooth_label, Line smooth_color)] else [])"
  by (auto simp: plot_curve_def Let_def split: if_splits sum.splits)

lemma plot_cycles_series:
  "plot_cycles fit smooth base cidx potential current segments js = Inr ls \<Longrightarrow>
   map (\<lambda>s. (s_label s, s_style s)) ls
     = concat (map (\<lambda>j.
         (base @ '' cycle '' @ string_of_nat (j + 1), Line (colors (cidx j)))
         # (if smooth
            then [(base @ '' cycle '' @ string_of_nat (j + 1) @ '' smoothed'',
                   Line (colors (cidx j)))]
            else [])) js)"
proof (induction js arbitrary: ls)
  case Nil
  then show ?case by simp
next
  case (Cons j js)
  obtain s e where se: "segments ! j = (s, e)" by (cases "segments ! j")
  from Cons.prems se obtain hd tl where
    h: "plot_curve fit smooth (slice potential s e) (slice current s e)
          (base @ '' cycle '' @ string_of_nat (j + 1)) (colors (cidx j))
          (base @ '' cycle '' @ string_of_nat (j + 1) @ '' smoothed'') (colors (cidx j)) = Inr hd"
    and t: "plot_cycles fit smooth base cidx potential current segments js = Inr tl"
    and l: "ls = hd @ tl"
    by (auto split: sum.splits)
  from plot_curve_series [OF h] Cons.IH [OF t] l show ?case by simp
qed

lemma select_cycles_in_range:
  "j \<in> set (select_cycles ui segments w) \<Longrightarrow> j < length segments"
  by (auto simp: select_cycles_def Let_def enumerate_eq_zip dest: set_zip_leftD)

lemma overlay_files_member:
  "overlay_files ui fit smooth sel auto_split es = Inr all_lines \<Longrightarrow>
   (i, f) \<in> set es \<Longrightarrow> \<not> deselected sel f \<Longrightarrow>
   read_cv_data False f = (Some potential, Some current, x_unit, y_unit) \<Longrightarrow>
   \<exists>ls. overlay_lines ui fit smooth auto_split i f potential current = Inr ls
        \<and> set ls \<subseteq> set all_lines"
proof (induction es arbitrary: all_lines)
  case Nil
  then show ?case by simp
next
  case (Cons e es)
  obtain k g where e: "e = (k, g)" by (cases e)
  show ?case
  proof (cases "(i, f) = (k, g)")
    case True
    with Cons.prems e show ?thesis
      by (auto split: sum.splits)
  next
    case False
    with Cons.prems(2) e have m: "(i, f) \<in> set es" by auto
    from Cons.prems(1) e consider
      "overlay_files ui fit smooth sel auto_split es = Inr all_lines"
      | hd tl where "overlay_files ui fit smooth sel auto_split es = Inr tl" "all_lines = hd @ tl"
      by (auto split: if_splits prod.splits option.splits sum.splits)
    then show ?thesis
    proof cases
      case 1
      from Cons.IH [OF 1 m Cons.prems(3,4)] show ?thesis .
    next
      case 2
      from Cons.IH [OF 2(1) m Cons.prems(3,4)] 2(2) show ?thesis by auto
    qed
  qed
qed

text \<open>
  C8: in overlay mode with \<^verbatim>\<open>auto_split\<close>, take the file at position \<open>i\<close> of the uploaded
  list, selected and loaded, in a call that returns a figure. Its potential splits into
  segments, and for each chosen cycle \<open>j\<close>, in order, the figure holds the series with
  the legend \<^verbatim>\<open>cycle j+1\<close> (and its smoothed companion when smoothing is on) in the
  colour \<open>(i + j) mod 10\<close> of the palette of ten. The result is a function of the
  arguments, so equal arguments give equal colours.
\<close>

theorem overlay_cycle_colors:
  assumes "plot_multi_cv ui fit files smooth sel True = Inr fig"
    and "i < length files" and "\<not> deselected sel (files ! i)"
    and "read_cv_data False (files ! i) = (Some potential, Some current, x_unit, y_unit)"
  shows "\<exists>segments ls.
       split_cycles_by_return_to_start (x_near (files ! i)) potential default_tol
         = Inr segments
     \<and> overlay_lines ui fit smooth True i (files ! i) potential current = Inr ls
     \<and> set ls \<subseteq> set (lines fig)
     \<and> map (\<lambda>s. (s_label s, s_style s)) ls
         = concat (map (\<lambda>j.
             (name (files ! i) @ '' cycle '' @ string_of_nat (j + 1),
              Line (Tab10 ((i + j) mod 10)))
             # (if smooth
                then [(name (files ! i) @ '' cycle '' @ string_of_nat (j + 1) @ '' smoothed'',
                       Line (Tab10 ((i + j) mod 10)))]
                else []))
             (select_cycles ui segments (FileCycles (name (files ! i)))))
     \<and> (\<forall>j \<in> set (select_cycles ui segments (FileCycles (name (files ! i)))).
           j < length segments)
     \<and> colors_N = 10"
proof -
  from assms(1) have o: "overlay_files ui fit smooth sel True (List.enumerate 0 files)
      = Inr (lines fig)"
    by (auto simp: plot_multi_cv_def split: sum.splits prod.splits)
  have m: "(i, files ! i) \<in> set (List.enumerate 0 files)"
    using assms(2) by (auto simp: in_set_enumerate_eq)
  from overlay_files_member [OF o m assms(3,4)] obtain ls where
    ls: "overlay_lines ui fit smooth True i (files ! i) potential current = Inr ls"
    and sub: "set ls \<subseteq> set (lines fig)"
    by blast
  from ls obtain segments where
    sg: "split_cycles_by_return_to_start (x_near (files ! i)) potential default_tol
        = Inr segments"
    and pc: "plot_cycles fit smooth (name (files ! i)) (\<lambda>j. (i + j) mod colors_N)
        potential current segments
        (select_cycles ui segments (FileCycles (name (files ! i)))) = Inr ls"
    by (auto simp: overlay_lines_def split: sum.splits)
  from plot_cycles_series [OF pc]
  have st: "map (\<lambda>s. (s_label s, s_style s)) ls
         = concat (map (\<lambda>j.
             (name (files ! i) @ '' cycle '' @ string_of_nat (j + 1),
              Line (Tab10 ((i + j) mod 10)))
             # (if smooth
                then [(name (files ! i) @ '' cycle '' @ string_of_nat (j + 1) @ '' smoothed'',
                       Line (Tab10 ((i + j) mod 10)))]
                else []))
             (select_cycles ui segments (FileCycles (name (files ! i)))))"
    by (simp only: colors_def colors_N_def)
  have rg: "\<forall>j \<in> set (select_cycles ui segments (FileCycles (name (files ! i)))).
           j < length segments"
    by (auto dest: select_cycles_in_range)
  from sg ls sub st rg show ?thesis
    by (auto simp: colors_N_def)
qed


lemma file_run_loaded:
  "read_cv_data False file_run = (Some run23, Some (map (\<lambda>v. 0) run23), ''V'', ''A'')"
  by (simp add: model_defs example_defs)

lemma run23_all_ticked:
  "select_cycles all_ticked [(0, 11), (11, 22), (22, 23)] (FileCycles ''run.csv'') = [0, 1, 2]"
  by (simp add: select_cycles_def all_ticked_def enumerate_eq_zip upt_conv_Cons
      string_of_nat.simps)

lemma overlay_a_run:
  "\<exists>fig. plot_multi_cv all_ticked flat_fit [file_a, file_run] False None True = Inr fig"
  by (simp add: model_defs example_defs)

theorem overlay_cycle_colors_witness:
  "(\<exists>fig. plot_multi_cv all_ticked flat_fit [file_a, file_run] False None True = Inr fig)
   \<and> 1 < length [file_a, file_run]
   \<and> \<not> deselected None ([file_a, file_run] ! 1)
   \<and> read_cv_data False ([file_a, file_run] ! 1)
        = (Some run23, Some (map (\<lambda>v. 0) run23), ''V'', ''A'')
   \<and> (\<exists>ls. overlay_lines all_ticked flat_fit False True 1 file_run run23 (map (\<lambda>v. 0) run23)
               = Inr ls
          \<and> map (\<lambda>s. (s_label s, s_style s)) ls
               = [(''run.csv cycle 1'', Line (Tab10 1)),
                  (''run.csv cycle 2'', Line (Tab10 2)),
                  (''run.csv cycle 3'', Line (Tab10 3))])"
proof -
  from overlay_a_run obtain fig where
    h1: "plot_multi_cv all_ticked flat_fit [file_a, file_run] False None True = Inr fig" ..
  have h2: "1 < length [file_a, file_run]" by simp
  have h3: "\<not> deselected None ([file_a, file_run] ! 1)" by (simp add: deselected_def)
  have h4: "read_cv_data False ([file_a, file_run] ! 1)
        = (Some run23, Some (map (\<lambda>v. 0) run23), ''V'', ''A'')"
    by (simp add: file_run_loaded)
  from overlay_cycle_colors [OF h1 h2 h3 h4] obtain segments ls where
    sg: "split_cycles_by_return_to_start (x_near ([file_a, file_run] ! 1)) run23 default_tol
        = Inr segments"
    and ls: "overlay_lines all_ticked flat_fit False True 1 ([file_a, file_run] ! 1)
        run23 (map (\<lambda>v. 0) run23) = Inr ls"
    and st: "map (\<lambda>s. (s_label s, s_style s)) ls
         = concat (map (\<lambda>j.
             (name ([file_a, file_run] ! 1) @ '' cycle '' @ string_of_nat (j + 1),
              Line (Tab10 ((1 + j) mod 10)))
             # (if False
                then [(name ([file_a, file_run] ! 1) @ '' cycle '' @ string_of_nat (j + 1)
                        @ '' smoothed'',
                       Line (Tab10 ((1 + j) mod 10)))]
                else []))
             (select_cycles all_ticked segments (FileCycles (name ([file_a, file_run] ! 1)))))"
    by blast
  have "x_near ([file_a, file_run] ! 1) = exact_near" by (simp add: file_run_def)
  with sg run23_split have s3: "segments = [(0, 11), (11, 22), (22, 23)]" by simp
  have nm: "name ([file_a, file_run] ! 1) = ''run.csv''" by (simp add: file_run_def)
  have "map (\<lambda>s. (s_label s, s_style s)) ls
               = [(''run.csv cycle 1'', Line (Tab10 1)),
                  (''run.csv cycle 2'', Line (Tab10 2)),
                  (''run.csv cycle 3'', Line (Tab10 3))]"
    unfolding st s3 nm run23_all_ticked by (simp add: string_of_nat.simps)
  with ls overlay_a_run h2 h3 h4 show ?thesis by simp
qed

text \<open>
  The labels of the axes in general. They are those that the read of line 131 yields for
  \<^verbatim>\<open>files[0]\<close>, the first file of the uploaded list whether it is selected or not, or
  \<open>V\<close> and \<open>A\<close> when that read yields no \<^verbatim>\<open>x\<close> or no \<^verbatim>\<open>y\<close>. When \<^verbatim>\<open>files[0]\<close> is
  selected, the loop has read its stream to the end, and the labels are \<open>V\<close> and \<open>A\<close>
  whatever the file declares. The other files and the options have no influence on the
  labels; with no file at all they are \<open>V\<close> and \<open>A\<close>.
\<close>

theorem axis_units_from_first_upload:
  assumes "plot_multi_cv ui fit (f0 # others) smooth sel auto_split = Inr fig"
  shows "(xlabel fig, ylabel fig)
       = (case read_cv_data (\<not> deselected sel f0) f0 of
            (Some p, Some c, x_unit, y_unit) \<Rightarrow>
              (''Potential ('' @ x_unit @ '')'', ''Current ('' @ y_unit @ '')'')
          | _ \<Rightarrow> (''Potential (V)'', ''Current (A)''))
     \<and> (\<not> deselected sel f0 \<longrightarrow>
          xlabel fig = ''Potential (V)'' \<and> ylabel fig = ''Current (A)'')
     \<and> (plot_multi_cv ui' fit' (f0 # others') smooth' sel auto_split' = Inr fig' \<longrightarrow>
          xlabel fig' = xlabel fig \<and> ylabel fig' = ylabel fig)
     \<and> plot_multi_cv ui fit [] smooth sel auto_split
          = Inr \<lparr>lines = [], xlabel = ''Potential (V)'', ylabel = ''Current (A)''\<rparr>"
proof -
  have labels: "xlabel g = ''Potential ('' @ fst (axis_units s (f0 # fs)) @ '')''
      \<and> ylabel g = ''Current ('' @ snd (axis_units s (f0 # fs)) @ '')''"
    if "plot_multi_cv u t (f0 # fs) sm s sp = Inr g" for u t fs sm s sp g
    using that by (auto simp: plot_multi_cv_def split: sum.splits prod.splits)
  have same: "axis_units sel (f0 # others') = axis_units sel (f0 # others)"
    by (simp add: axis_units_def)
  have 1: "(xlabel fig, ylabel fig)
       = (case read_cv_data (\<not> deselected sel f0) f0 of
            (Some p, Some c, x_unit, y_unit) \<Rightarrow>
              (''Potential ('' @ x_unit @ '')'', ''Current ('' @ y_unit @ '')'')
          | _ \<Rightarrow> (''Potential (V)'', ''Current (A)''))"
    using labels [OF assms]
    by (auto simp: axis_units_def split: prod.splits option.splits)
  have 2: "plot_multi_cv ui' fit' (f0 # others') smooth' sel auto_split' = Inr fig' \<longrightarrow>
          xlabel fig' = xlabel fig \<and> ylabel fig' = ylabel fig"
    using labels [OF assms] labels [of ui' fit' others' smooth' sel auto_split' fig'] same
    by auto
  have 3: "plot_multi_cv ui fit [] smooth sel auto_split
          = Inr \<lparr>lines = [], xlabel = ''Potential (V)'', ylabel = ''Current (A)''\<rparr>"
    by (simp add: plot_multi_cv_def axis_units_def enumerate_eq_zip)
  have 4: "\<not> deselected sel f0 \<longrightarrow>
          xlabel fig = ''Potential (V)'' \<and> ylabel fig = ''Current (A)''"
    using labels [OF assms]
    by (simp add: axis_units_def read_cv_data_def read_csv_def)
  from 1 4 2 3 show ?thesis by (intro conjI)
qed

lemma overlay_b_selected:
  "plot_multi_cv all_ticked flat_fit [file_a, file_b] False (Some [''b.csv'']) False
     = Inr \<lparr>lines = [\<lparr>s_x = [0, 1], s_y = [3, - 1], s_label = ''b (raw)'',
                       s_style = Line (Tab10 1)\<rparr>],
            xlabel = ''Potential (mV)'', ylabel = ''Current (mA)''\<rparr>"
  by (simp add: model_defs example_defs)

theorem axis_units_from_first_upload_witness:
  "plot_multi_cv all_ticked flat_fit [file_a, file_b] False (Some [''b.csv'']) False
     = Inr \<lparr>lines = [\<lparr>s_x = [0, 1], s_y = [3, - 1], s_label = ''b (raw)'',
                       s_style = Line (Tab10 1)\<rparr>],
            xlabel = ''Potential (mV)'', ylabel = ''Current (mA)''\<rparr>
   \<and> read_cv_data (\<not> deselected (Some [''b.csv'']) file_a) file_a
        = (Some [0, 1], Some [1, 2], ''mV'', ''mA'')"
proof -
  let ?fig = "\<lparr>lines = [\<lparr>s_x = [0, 1], s_y = [3, - 1], s_label = ''b (raw)'',
                       s_style = Line (Tab10 1)\<rparr>],
            xlabel = ''Potential (mV)'', ylabel = ''Current (mA)''\<rparr>"
  have r: "read_cv_data (\<not> deselected (Some [''b.csv'']) file_a) file_a
        = (Some [0, 1], Some [1, 2], ''mV'', ''mA'')"
    by (simp add: model_defs example_defs)
  from axis_units_from_first_upload [OF overlay_b_selected]
  have "(xlabel ?fig, ylabel ?fig)
       = (case read_cv_data (\<not> deselected (Some [''b.csv'']) file_a) file_a of
            (Some p, Some c, x_unit, y_unit) \<Rightarrow>
              (''Potential ('' @ x_unit @ '')'', ''Current ('' @ y_unit @ '')'')
          | _ \<Rightarrow> (''Potential (V)'', ''Current (A)''))"
    by blast
  with overlay_b_selected r show ?thesis by simp
qed

text \<open>
  C9 fails on two uploads of which the first declares the units \<open>mV\<close> and \<open>mA\<close> and the
  second none. With both selected, the first is the first file that is selected and
  loaded, and both curves are plotted, yet the axes carry \<open>V\<close> and \<open>A\<close>: line 131 reads
  the first upload again, from the end of its stream. With only the second selected, it
  is the only file that is loaded and plotted, yet the axes carry the units \<open>mV\<close> and
  \<open>mA\<close> of the first, deselected upload: line 131 does not look at the selection.
\<close>

theorem axis_units_not_of_first_selected:
  "read_cv_data False file_a = (Some [0, 1], Some [1, 2], ''mV'', ''mA'')
   \<and> read_cv_data False file_b = (Some [0, 1], Some [3, - 1], ''V'', ''A'')
   \<and> \<not> deselected None file_a
   \<and> map_sum id (\<lambda>fig. (map s_label (lines fig), xlabel fig, ylabel fig))
        (plot_multi_cv all_ticked flat_fit [file_a, file_b] False None False)
      = Inr ([''a (raw)'', ''b (raw)''], ''Potential (V)'', ''Current (A)'')
   \<and> deselected (Some [''b.csv'']) file_a
   \<and> \<not> deselected (Some [''b.csv'']) file_b
   \<and> map_sum id (\<lambda>fig. (map s_label (lines fig), xlabel fig, ylabel fig))
        (plot_multi_cv all_ticked flat_fit [file_a, file_b] False (Some [''b.csv'']) False)
      = Inr ([''b (raw)''], ''Potential (mV)'', ''Current (mA)'')"
  by (simp add: model_defs example_defs)

section \<open>The empty sequence in the application\<close>

text \<open>
  The segmenter does receive the empty sequence: a file that holds the header line
  \<^verbatim>\<open>x,y\<close> and no data row is loaded as two empty columns, and with \<^verbatim>\<open>auto_split\<close>
  on both modes hand its potential to the segmenter, whose exception leaves them.
\<close>

lemma header_only_auto_split_raises:
  "read_cv_data False file_header_only = (Some [], Some [], ''V'', ''A'')
   \<and> plot_single_cv all_ticked flat_fit file_header_only None False False True
        = Inl IndexError
   \<and> plot_multi_cv all_ticked flat_fit [file_header_only, file_b] False None True
        = Inl IndexError"
  by (simp add: model_defs example_defs)

end
